theory Spec2Isabelle
  imports Main "HOL-Library.Word"
begin

unbundle bit_operations_syntax

section \<open>Data model of package reader\<close>

text \<open>
  The package is one struct, \<^verbatim>\<open>Reader[S ~[]byte | ~string]\<close>, with the fields
  \<^verbatim>\<open>s S\<close>, \<^verbatim>\<open>off int64\<close> and \<^verbatim>\<open>lastRead readOp\<close> (an \<^verbatim>\<open>int8\<close>), and its methods.
  Machine integers are words: \<^verbatim>\<open>int64\<close> and Go's \<^verbatim>\<open>int\<close> (taken as 64 bits wide) are
  \<open>64 word\<close> read with \<open>sint\<close>, \<^verbatim>\<open>int8\<close> is \<open>8 word\<close> read with \<open>sint\<close>, \<^verbatim>\<open>byte\<close> is
  \<open>8 word\<close> read with \<open>unat\<close>, \<^verbatim>\<open>rune\<close> (an \<^verbatim>\<open>int32\<close>) is \<open>32 word\<close>. Lengths and the
  counts returned by the builtin \<^verbatim>\<open>copy\<close> are never negative and are natural numbers.
\<close>

type_synonym byte = "8 word"
type_synonym int64 = "64 word"
type_synonym go_int = "64 word"
type_synonym rune = "32 word"
type_synonym readOp = "8 word"

text \<open>
  The backing value of type \<^verbatim>\<open>S\<close>. A \<^verbatim>\<open>[]byte\<close> is either the nil slice (the zero
  value of the type) or a sequence of bytes; a \<^verbatim>\<open>string\<close> is its sequence of bytes and
  its zero value is the empty sequence.
\<close>

datatype S = NilSlice | Data "byte list"

fun bytes_of :: "S \<Rightarrow> byte list" where
  "bytes_of NilSlice = []"
| "bytes_of (Data bs) = bs"

definition len_S :: "S \<Rightarrow> nat" where
  "len_S x = length (bytes_of x)"

record Reader =
  r_s :: S
  r_off :: int64
  r_lastRead :: readOp

definition opRead :: readOp where "opRead = - 1"
definition opInvalid :: readOp where "opInvalid = 0"
definition opReadRune1 :: readOp where "opReadRune1 = 1"
definition opReadRune2 :: readOp where "opReadRune2 = 2"
definition opReadRune3 :: readOp where "opReadRune3 = 3"
definition opReadRune4 :: readOp where "opReadRune4 = 4"

text \<open>
  Errors are values. \<^verbatim>\<open>io.EOF\<close> and \<^verbatim>\<open>io.ErrShortWrite\<close> are the two sentinel errors
  the package returns; \<^verbatim>\<open>errors.New(msg)\<close> is \<open>ErrorNew msg\<close>. A \<^verbatim>\<open>nil\<close> error is
  \<open>None\<close>.
\<close>

datatype error = EOF | ErrShortWrite | ErrorNew string

text \<open>
  A call either returns or panics. The panics of the source are the explicit one of
  \<^verbatim>\<open>WriteTo\<close> and the run-time panics of indexing and slicing out of range. Every
  method has a pointer receiver, so every operation returns the reader it leaves behind,
  also when it panics.
\<close>

datatype 'a result = Panic string | Return 'a

definition slice_from :: "byte list \<Rightarrow> int64 \<Rightarrow> byte list result" where
  \<comment> \<open>\<^verbatim>\<open>b[off:]\<close>\<close>
  "slice_from b i =
     (if sint i < 0 \<or> int (length b) < sint i
      then Panic ''runtime error: slice bounds out of range''
      else Return (drop (nat (sint i)) b))"

definition index_at :: "byte list \<Rightarrow> int64 \<Rightarrow> byte result" where
  \<comment> \<open>\<^verbatim>\<open>b[off]\<close>\<close>
  "index_at b i =
     (if sint i < 0 \<or> int (length b) \<le> sint i
      then Panic ''runtime error: index out of range''
      else Return (b ! nat (sint i)))"

definition copy :: "byte list \<Rightarrow> byte list \<Rightarrow> nat \<times> byte list" where
  \<comment> \<open>the builtin \<^verbatim>\<open>copy(dst, src)\<close>: the count and the destination afterwards\<close>
  "copy dst src =
     (let n = min (length dst) (length src) in (n, take n src @ drop n dst))"

section \<open>The decoder of package unicode/utf8\<close>

text \<open>
  Modelled from the spec: \<^verbatim>\<open>utf8.DecodeRune\<close> and \<^verbatim>\<open>utf8.RuneSelf\<close>, which
  \<^verbatim>\<open>ReadRune\<close> uses, belong to Go's standard library and are not in this repository.
  The specification asks for a standard UTF-8 decode with replacement: a width of 1 to 4
  bytes, and width 1 with the replacement scalar for malformed input. The definitions
  below are that decoder as the library writes it: the table \<^verbatim>\<open>first\<close> classifies the
  leading byte, the low three bits of the class give the width, the high four bits choose
  the range that the second byte must lie in, and an empty input gives width 0.
\<close>

definition RuneSelf :: byte where "RuneSelf = 0x80"
definition RuneError :: rune where "RuneError = 0xFFFD"

definition first :: "byte \<Rightarrow> byte" where
  "first b =
     (if b < 0x80 then 0xF0
      else if b < 0xC2 then 0xF1
      else if b < 0xE0 then 0x02
      else if b = 0xE0 then 0x13
      else if b < 0xED then 0x03
      else if b = 0xED then 0x23
      else if b < 0xF0 then 0x03
      else if b = 0xF0 then 0x34
      else if b < 0xF4 then 0x04
      else if b = 0xF4 then 0x44
      else 0xF1)"

definition acceptRanges :: "byte \<Rightarrow> byte \<times> byte" where
  "acceptRanges i =
     (if i = 0 then (0x80, 0xBF)
      else if i = 1 then (0xA0, 0xBF)
      else if i = 2 then (0x80, 0x9F)
      else if i = 3 then (0x90, 0xBF)
      else if i = 4 then (0x80, 0x8F)
      else (0, 0))"

definition DecodeRune :: "byte list \<Rightarrow> rune \<times> nat" where
  "DecodeRune p =
     (let n = length p in
      if n < 1 then (RuneError, 0)
      else
        let p0 = p ! 0; x = first p0 in
        if 0xF0 \<le> x then
          (let mask = signed_drop_bit 31 (push_bit 31 (ucast x :: rune))
           in ((ucast p0 AND NOT mask) OR (RuneError AND mask), 1))
        else
          let sz = unat (x AND 7); accept = acceptRanges (drop_bit 4 x) in
          if n < sz then (RuneError, 1)
          else
            let b1 = p ! 1 in
            if b1 < fst accept \<or> snd accept < b1 then (RuneError, 1)
            else if sz \<le> 2 then
              (push_bit 6 (ucast (p0 AND 0x1F)) OR ucast (b1 AND 0x3F), 2)
            else
              let b2 = p ! 2 in
              if b2 < 0x80 \<or> 0xBF < b2 then (RuneError, 1)
              else if sz \<le> 3 then
                (push_bit 12 (ucast (p0 AND 0x0F)) OR push_bit 6 (ucast (b1 AND 0x3F))
                   OR ucast (b2 AND 0x3F), 3)
              else
                let b3 = p ! 3 in
                if b3 < 0x80 \<or> 0xBF < b3 then (RuneError, 1)
                else
                  (push_bit 18 (ucast (p0 AND 0x07)) OR push_bit 12 (ucast (b1 AND 0x3F))
                     OR push_bit 6 (ucast (b2 AND 0x3F)) OR ucast (b3 AND 0x3F), 4))"

section \<open>The methods of Reader\<close>

definition Len :: "Reader \<Rightarrow> int" where
  "Len r =
     (if int (len_S (r_s r)) \<le> sint (r_off r) then 0
      else sint (of_nat (len_S (r_s r)) - r_off r :: int64))"

definition Size :: "Reader \<Rightarrow> int64" where
  "Size r = of_nat (len_S (r_s r))"

definition Read :: "Reader \<Rightarrow> byte list \<Rightarrow> (nat \<times> error option) result \<times> byte list \<times> Reader" where
  "Read r p =
     (if int (len_S (r_s r)) \<le> sint (r_off r) then (Return (0, Some EOF), p, r)
      else
        let r1 = r\<lparr>r_lastRead := opInvalid\<rparr> in
        case slice_from (bytes_of (r_s r1)) (r_off r1) of
          Panic msg \<Rightarrow> (Panic msg, p, r1)
        | Return src \<Rightarrow>
            let (n, p') = copy p src;
                r2 = r1\<lparr>r_off := r_off r1 + of_nat n\<rparr>;
                r3 = (if 0 < n then r2\<lparr>r_lastRead := opRead\<rparr> else r2)
            in (Return (n, None), p', r3))"

definition ReadAt :: "Reader \<Rightarrow> byte list \<Rightarrow> int64 \<Rightarrow> (nat \<times> error option) result \<times> byte list \<times> Reader" where
  "ReadAt r p off =
     (if sint off < 0 then
        (Return (0, Some (ErrorNew ''reader.Reader.ReadAt: negative offset'')), p, r)
      else if int (len_S (r_s r)) \<le> sint off then (Return (0, Some EOF), p, r)
      else
        case slice_from (bytes_of (r_s r)) off of
          Panic msg \<Rightarrow> (Panic msg, p, r)
        | Return src \<Rightarrow>
            let (n, p') = copy p src;
                err = (if n < length p then Some EOF else None)
            in (Return (n, err), p', r))"

definition ReadByte :: "Reader \<Rightarrow> (byte \<times> error option) result \<times> Reader" where
  "ReadByte r =
     (let r1 = r\<lparr>r_lastRead := opInvalid\<rparr> in
      if int (len_S (r_s r1)) \<le> sint (r_off r1) then (Return (0, Some EOF), r1)
      else
        case index_at (bytes_of (r_s r1)) (r_off r1) of
          Panic msg \<Rightarrow> (Panic msg, r1)
        | Return c \<Rightarrow> (Return (c, None), r1\<lparr>r_off := r_off r1 + 1, r_lastRead := opRead\<rparr>))"

definition UnreadByte :: "Reader \<Rightarrow> error option \<times> Reader" where
  "UnreadByte r =
     (if sint (r_off r) \<le> 0 then
        (Some (ErrorNew ''reader.Reader.UnreadByte: at beginning of slice or string''), r)
      else (None, r\<lparr>r_lastRead := opInvalid, r_off := r_off r - 1\<rparr>))"

definition ReadRune :: "Reader \<Rightarrow> (rune \<times> nat \<times> error option) result \<times> Reader" where
  "ReadRune r =
     (if int (len_S (r_s r)) \<le> sint (r_off r) then
        (Return (0, 0, Some EOF), r\<lparr>r_lastRead := opInvalid\<rparr>)
      else
        case index_at (bytes_of (r_s r)) (r_off r) of
          Panic msg \<Rightarrow> (Panic msg, r)
        | Return c \<Rightarrow>
            if c < RuneSelf then
              (Return (ucast c, 1, None), r\<lparr>r_off := r_off r + 1, r_lastRead := opReadRune1\<rparr>)
            else
              (case slice_from (bytes_of (r_s r)) (r_off r) of
                 Panic msg \<Rightarrow> (Panic msg, r)
               | Return rest \<Rightarrow>
                   let (ch, sz) = DecodeRune rest
                   in (Return (ch, sz, None),
                       r\<lparr>r_off := r_off r + of_nat sz, r_lastRead := of_nat sz\<rparr>)))"

definition UnreadRune :: "Reader \<Rightarrow> error option \<times> Reader" where
  "UnreadRune r =
     (if r_lastRead r = opReadRune1 \<or> r_lastRead r = opReadRune2
         \<or> r_lastRead r = opReadRune3 \<or> r_lastRead r = opReadRune4
      then (None, r\<lparr>r_off := r_off r - scast (r_lastRead r), r_lastRead := opInvalid\<rparr>)
      else
        (Some (ErrorNew ''reader.Reader.UnreadRune: previous operation was not ReadRune''), r))"

definition SeekStart :: go_int where "SeekStart = 0"
definition SeekCurrent :: go_int where "SeekCurrent = 1"
definition SeekEnd :: go_int where "SeekEnd = 2"

definition Seek :: "Reader \<Rightarrow> int64 \<Rightarrow> go_int \<Rightarrow> (int64 \<times> error option) \<times> Reader" where
  "Seek r offset whence =
     (let r1 = r\<lparr>r_lastRead := opInvalid\<rparr> in
      if whence \<noteq> SeekStart \<and> whence \<noteq> SeekCurrent \<and> whence \<noteq> SeekEnd then
        ((0, Some (ErrorNew ''reader.Reader.Seek: invalid whence'')), r1)
      else
        let offset1 =
              (if whence = SeekStart then offset
               else if whence = SeekCurrent then offset + r_off r1
               else offset + of_nat (len_S (r_s r1)))
        in
          if sint offset1 < 0 then
            ((0, Some (ErrorNew ''reader.Reader.Seek: negative position'')), r1)
          else ((offset1, None), r1\<lparr>r_off := offset1\<rparr>))"

text \<open>
  An \<^verbatim>\<open>io.Writer\<close> is an object with a state of its own: \<^verbatim>\<open>Write\<close> takes the bytes
  offered and gives back a count, an error and the writer's next state. Nothing in the type
  keeps the count between 0 and the number of bytes offered.
\<close>

type_synonym 'w writer = "'w \<Rightarrow> byte list \<Rightarrow> (go_int \<times> error option) \<times> 'w"

definition WriteTo :: "Reader \<Rightarrow> 'w writer \<Rightarrow> 'w \<Rightarrow> (int64 \<times> error option) result \<times> Reader \<times> 'w" where
  "WriteTo r w ws =
     (let r1 = r\<lparr>r_lastRead := opInvalid\<rparr> in
      if int (len_S (r_s r1)) \<le> sint (r_off r1) then (Return (0, None), r1, ws)
      else
        case slice_from (bytes_of (r_s r1)) (r_off r1) of
          Panic msg \<Rightarrow> (Panic msg, r1, ws)
        | Return sl \<Rightarrow>
            let ((m, err), ws') = w ws sl in
            if int (length sl) < sint m then
              (Panic ''reader.Reader.WriteTo: invalid Write count'', r1, ws')
            else
              let r2 = r1\<lparr>r_off := r_off r1 + m\<rparr>;
                  err' = (if int (length sl) \<noteq> sint m \<and> err = None
                          then Some ErrShortWrite else err)
              in (Return (m, err'), r2, ws'))"

definition Reset :: "Reader \<Rightarrow> S \<Rightarrow> Reader" where
  "Reset r x = \<lparr>r_s = x, r_off = 0, r_lastRead = 0\<rparr>"

definition New :: "S \<Rightarrow> Reader" where
  "New x = \<lparr>r_s = x, r_off = 0, r_lastRead = 0\<rparr>"

text \<open>
  The zero value of the struct: every field at the zero value of its type. For a
  \<^verbatim>\<open>[]byte\<close> backing that is the nil slice; for a \<^verbatim>\<open>string\<close> backing it is the
  empty string, and the zero reader is then \<open>New (Data [])\<close> itself.
\<close>

definition zero_Reader :: Reader where
  "zero_Reader = \<lparr>r_s = NilSlice, r_off = 0, r_lastRead = 0\<rparr>"

section \<open>Sequences of calls\<close>

text \<open>
  A client of the package makes one call after the other on the same reader. A call is
  named with its arguments, its outcome is what the caller gets back (for \<^verbatim>\<open>Read\<close> and
  \<^verbatim>\<open>ReadAt\<close> also the destination buffer afterwards, for \<^verbatim>\<open>WriteTo\<close> also the
  writer afterwards), and \<open>do_calls\<close> threads the reader through a list of them. A panic
  leaves the reader as it was at that moment, which is what a caller that recovers sees.
\<close>

datatype 'w call =
    CallLen
  | CallSize
  | CallRead "byte list"
  | CallReadAt "byte list" int64
  | CallReadByte
  | CallUnreadByte
  | CallReadRune
  | CallUnreadRune
  | CallSeek int64 go_int
  | CallWriteTo "'w writer" 'w
  | CallReset S

datatype 'w outcome =
    GotLen int
  | GotSize int64
  | GotRead "(nat \<times> error option) result" "byte list"
  | GotReadAt "(nat \<times> error option) result" "byte list"
  | GotReadByte "(byte \<times> error option) result"
  | GotUnreadByte "error option"
  | GotReadRune "(rune \<times> nat \<times> error option) result"
  | GotUnreadRune "error option"
  | GotSeek "int64 \<times> error option"
  | GotWriteTo "(int64 \<times> error option) result" 'w
  | GotReset

fun do_call :: "Reader \<Rightarrow> 'w call \<Rightarrow> 'w outcome \<times> Reader" where
  "do_call r CallLen = (GotLen (Len r), r)"
| "do_call r CallSize = (GotSize (Size r), r)"
| "do_call r (CallRead p) = (case Read r p of (res, p', r') \<Rightarrow> (GotRead res p', r'))"
| "do_call r (CallReadAt p off) = (case ReadAt r p off of (res, p', r') \<Rightarrow> (GotReadAt res p', r'))"
| "do_call r CallReadByte = (case ReadByte r of (res, r') \<Rightarrow> (GotReadByte res, r'))"
| "do_call r CallUnreadByte = (case UnreadByte r of (err, r') \<Rightarrow> (GotUnreadByte err, r'))"
| "do_call r CallReadRune = (case ReadRune r of (res, r') \<Rightarrow> (GotReadRune res, r'))"
| "do_call r CallUnreadRune = (case UnreadRune r of (err, r') \<Rightarrow> (GotUnreadRune err, r'))"
| "do_call r (CallSeek offset whence) = (case Seek r offset whence of (res, r') \<Rightarrow> (GotSeek res, r'))"
| "do_call r (CallWriteTo w ws) = (case WriteTo r w ws of (res, r', ws') \<Rightarrow> (GotWriteTo res ws', r'))"
| "do_call r (CallReset x) = (GotReset, Reset r x)"

fun do_calls :: "Reader \<Rightarrow> 'w call list \<Rightarrow> 'w outcome list \<times> Reader" where
  "do_calls r [] = ([], r)"
| "do_calls r (c # cs) =
     (case do_call r c of (out, r') \<Rightarrow>
        (case do_calls r' cs of (outs, r'') \<Rightarrow> (out # outs, r'')))"

text \<open>
  Go keeps the length of a slice or string in an \<^verbatim>\<open>int\<close>, so no backing value is longer
  than the largest \<^verbatim>\<open>int\<close>. Lists are not bounded; \<open>fits_int\<close> says that a backing
  value is one that Go can hold.
\<close>

definition fits_int :: "S \<Rightarrow> bool" where
  "fits_int x \<longleftrightarrow> len_S x < 2 ^ 63"

fun call_fits :: "'w call \<Rightarrow> bool" where
  "call_fits (CallReset x) = fits_int x"
| "call_fits _ = True"

text \<open>
  The contract of \<^verbatim>\<open>io.Writer\<close> asks for a count that is not negative. \<open>count_nonneg\<close>
  holds of an outcome unless it is a \<^verbatim>\<open>WriteTo\<close> that returned a negative count, which
  can only be the count its writer reported.
\<close>

fun count_nonneg :: "'w outcome \<Rightarrow> bool" where
  "count_nonneg (GotWriteTo (Return (m, err)) ws) = (0 \<le> sint m)"
| "count_nonneg _ = True"

text \<open>
  The invariant of the position: it is not negative, and while \<open>lastRead\<close> records a
  rune of some width the position is at least that width.
\<close>

definition is_rune_op :: "readOp \<Rightarrow> bool" where
  "is_rune_op x \<longleftrightarrow> x = opReadRune1 \<or> x = opReadRune2 \<or> x = opReadRune3 \<or> x = opReadRune4"

definition position_ok :: "Reader \<Rightarrow> bool" where
  "position_ok r \<longleftrightarrow>
     0 \<le> sint (r_off r) \<and> (is_rune_op (r_lastRead r) \<longrightarrow> sint (r_lastRead r) \<le> sint (r_off r))"

text \<open>
  The second half of the invariant on its own: while \<open>lastRead\<close> records a rune of
  some width the position is at least that width, whatever the position is otherwise.
\<close>

definition width_ok :: "Reader \<Rightarrow> bool" where
  "width_ok r \<longleftrightarrow> (is_rune_op (r_lastRead r) \<longrightarrow> sint (r_lastRead r) \<le> sint (r_off r))"

text \<open>
  Two readers hold the same content when they are at the same position with the same
  \<open>lastRead\<close> over the same bytes; the backing values themselves may differ, as the nil
  slice and the empty slice do.
\<close>

definition same_content :: "Reader \<Rightarrow> Reader \<Rightarrow> bool" where
  "same_content r1 r2 \<longleftrightarrow>
     bytes_of (r_s r1) = bytes_of (r_s r2) \<and> r_off r1 = r_off r2 \<and> r_lastRead r1 = r_lastRead r2"

text \<open>
  The candidate position of a seek as the specification words it, computed on unbounded
  integers: the offset for Start, position plus offset for Current, length plus offset for
  End.
\<close>

definition candidate_exact :: "Reader \<Rightarrow> int64 \<Rightarrow> go_int \<Rightarrow> int" where
  "candidate_exact r offset whence =
     (if whence = SeekStart then sint offset
      else if whence = SeekCurrent then sint (r_off r) + sint offset
      else int (len_S (r_s r)) + sint offset)"

section \<open>Basic facts\<close>

lemmas readOp_defs =
  opRead_def opInvalid_def opReadRune1_def opReadRune2_def opReadRune3_def opReadRune4_def

text \<open>
  Signed 64-bit addition is exact whenever the exact sum is a signed 64-bit value, and so
  is the conversion of a length that Go can hold.
\<close>

lemma sint_add_exact:
  "- (2 ^ 63) \<le> sint a + sint b \<Longrightarrow> sint a + sint b < 2 ^ 63 \<Longrightarrow>
   sint (a + b :: int64) = sint a + sint b"
  by (simp add: sint_word_ariths signed_take_bit_int_eq_self)

lemma sint_sub_exact:
  "- (2 ^ 63) \<le> sint a - sint b \<Longrightarrow> sint a - sint b < 2 ^ 63 \<Longrightarrow>
   sint (a - b :: int64) = sint a - sint b"
  by (simp add: sint_word_ariths signed_take_bit_int_eq_self)

lemma sint_of_nat_exact:
  "n < 2 ^ 63 \<Longrightarrow> sint (of_nat n :: int64) = int n"
  by (simp add: signed_of_nat signed_take_bit_int_eq_self)

lemma sint_advance:
  assumes "0 \<le> sint a" and "sint a + int n \<le> int L" and "L < 2 ^ 63"
  shows "sint (a + of_nat n :: int64) = sint a + int n"
proof -
  from assms(3) have L: "int L < 2 ^ 63" by simp
  from assms(1,2) L have "int n < 2 ^ 63" by linarith
  then have "n < 2 ^ 63" by simp
  then have n: "sint (of_nat n :: int64) = int n"
    by (rule sint_of_nat_exact)
  from assms(2) L have "sint a + int n < 2 ^ 63" by linarith
  with assms(1) show ?thesis
    using sint_add_exact [of a "of_nat n"] by (simp add: n)
qed

section \<open>Read and the record of the last operation\<close>

text \<open>
  Claim C1, as amended. The claim says that \<^verbatim>\<open>Read\<close> resets \<open>lastRead\<close> on entry, so
  that it is \<open>opInvalid\<close> after a \<^verbatim>\<open>Read\<close> that returns \<open>(0, EOF)\<close>. The source tests
  for the end of the data first and returns before it writes any field: at or past the
  end, \<^verbatim>\<open>Read\<close> returns \<open>(0, EOF)\<close> and leaves the whole reader, \<open>lastRead\<close> included,
  as it was. Before the end it does what the claim says: \<open>lastRead\<close> is reset, it
  becomes \<open>opRead\<close> exactly when the count returned is positive, and an \<^verbatim>\<open>UnreadRune\<close>
  that follows fails.
\<close>

theorem Read_lastRead:
  "(int (len_S (r_s r)) \<le> sint (r_off r) \<longrightarrow> Read r p = (Return (0, Some EOF), p, r)) \<and>
   (sint (r_off r) < int (len_S (r_s r)) \<longrightarrow>
      (case Read r p of (res, p', r') \<Rightarrow>
         res \<noteq> Return (0, Some EOF) \<and>
         (r_lastRead r' = opInvalid \<or> r_lastRead r' = opRead) \<and>
         (r_lastRead r' = opRead \<longleftrightarrow> (\<exists>n e. res = Return (n, e) \<and> 0 < n)) \<and>
         fst (UnreadRune r') \<noteq> None))"
proof (rule conjI)
  show "int (len_S (r_s r)) \<le> sint (r_off r) \<longrightarrow> Read r p = (Return (0, Some EOF), p, r)"
    by (simp add: Read_def)
next
  show "sint (r_off r) < int (len_S (r_s r)) \<longrightarrow>
      (case Read r p of (res, p', r') \<Rightarrow>
         res \<noteq> Return (0, Some EOF) \<and>
         (r_lastRead r' = opInvalid \<or> r_lastRead r' = opRead) \<and>
         (r_lastRead r' = opRead \<longleftrightarrow> (\<exists>n e. res = Return (n, e) \<and> 0 < n)) \<and>
         fst (UnreadRune r') \<noteq> None)"
    by (auto simp: Read_def Let_def UnreadRune_def readOp_defs
             split: result.splits prod.splits)
qed

text \<open>
  Both branches at a one-byte reader: a read before the end, and a read at the end after
  a rune was read.
\<close>

theorem Read_lastRead_witness:
  "sint (r_off (New (Data [0x61]))) < int (len_S (r_s (New (Data [0x61]))))
   \<and> Read (New (Data [0x61])) [0]
       = (Return (1, None), [0x61], \<lparr>r_s = Data [0x61], r_off = 1, r_lastRead = opRead\<rparr>)
   \<and> fst (UnreadRune \<lparr>r_s = Data [0x61], r_off = 1, r_lastRead = opRead\<rparr>) \<noteq> None
   \<and> int (len_S (Data [0x61])) \<le> sint (1 :: int64)
   \<and> Read \<lparr>r_s = Data [0x61], r_off = 1, r_lastRead = opReadRune1\<rparr> [0]
       = (Return (0, Some EOF), [0], \<lparr>r_s = Data [0x61], r_off = 1, r_lastRead = opReadRune1\<rparr>)"
  using Read_lastRead [of "New (Data [0x61])" "[0]"]
        Read_lastRead [of "\<lparr>r_s = Data [0x61], r_off = 1, r_lastRead = opReadRune1\<rparr>" "[0]"]
  by (simp add: Read_def New_def len_S_def slice_from_def copy_def UnreadRune_def readOp_defs)

text \<open>
  Claim C1 as stated fails on the reader over the one byte \<open>0x61\<close>: \<^verbatim>\<open>ReadRune\<close>
  consumes the byte and records a rune of width 1; the \<^verbatim>\<open>Read\<close> that follows returns
  \<open>(0, EOF)\<close> and \<open>lastRead\<close> still records the rune; the \<^verbatim>\<open>UnreadRune\<close> after it
  succeeds and moves the position back to 0.
\<close>

theorem Read_eof_keeps_lastRead_counterexample:
  "snd (ReadRune (New (Data [0x61]))) = \<lparr>r_s = Data [0x61], r_off = 1, r_lastRead = opReadRune1\<rparr>
   \<and> Read \<lparr>r_s = Data [0x61], r_off = 1, r_lastRead = opReadRune1\<rparr> [0]
       = (Return (0, Some EOF), [0], \<lparr>r_s = Data [0x61], r_off = 1, r_lastRead = opReadRune1\<rparr>)
   \<and> opReadRune1 \<noteq> opInvalid
   \<and> UnreadRune \<lparr>r_s = Data [0x61], r_off = 1, r_lastRead = opReadRune1\<rparr>
       = (None, \<lparr>r_s = Data [0x61], r_off = 0, r_lastRead = opInvalid\<rparr>)"
  by (simp add: ReadRune_def Read_def UnreadRune_def New_def len_S_def index_at_def
                RuneSelf_def readOp_defs)

section \<open>Seek\<close>

lemma Seek_whence_distinct:
  "SeekStart \<noteq> SeekCurrent" "SeekStart \<noteq> SeekEnd" "SeekCurrent \<noteq> SeekEnd"
  "SeekCurrent \<noteq> SeekStart" "SeekEnd \<noteq> SeekStart" "SeekEnd \<noteq> SeekCurrent"
  by (simp_all add: SeekStart_def SeekCurrent_def SeekEnd_def)

lemma Seek_committed:
  assumes "whence = SeekStart \<or> whence = SeekCurrent \<or> whence = SeekEnd"
    and "fits_int (r_s r)"
    and "- (2 ^ 63) \<le> candidate_exact r offset whence"
    and "candidate_exact r offset whence < 2 ^ 63"
  shows "\<exists>pos. sint pos = candidate_exact r offset whence \<and>
     Seek r offset whence =
       (if sint pos < 0
        then ((0, Some (ErrorNew ''reader.Reader.Seek: negative position'')),
              r\<lparr>r_lastRead := opInvalid\<rparr>)
        else ((pos, None), r\<lparr>r_lastRead := opInvalid, r_off := pos\<rparr>))"
proof -
  from assms(2) have len: "sint (of_nat (len_S (r_s r)) :: int64) = int (len_S (r_s r))"
    by (simp add: fits_int_def sint_of_nat_exact)
  from assms(1) show ?thesis
  proof (elim disjE)
    assume w: "whence = SeekStart"
    show ?thesis
      by (rule exI [of _ offset])
         (simp add: w Seek_def candidate_exact_def Let_def)
  next
    assume w: "whence = SeekCurrent"
    from assms(3,4) have "sint (offset + r_off r) = sint offset + sint (r_off r)"
      by (intro sint_add_exact) (simp_all add: w candidate_exact_def Seek_whence_distinct)
    then show ?thesis
      by (intro exI [of _ "offset + r_off r"])
         (simp add: w Seek_def candidate_exact_def Let_def Seek_whence_distinct)
  next
    assume w: "whence = SeekEnd"
    from assms(3,4) len
    have "sint (offset + of_nat (len_S (r_s r))) = sint offset + int (len_S (r_s r))"
      using sint_add_exact [of offset "of_nat (len_S (r_s r))"]
      by (simp add: w candidate_exact_def Seek_whence_distinct)
    then show ?thesis
      by (intro exI [of _ "offset + of_nat (len_S (r_s r))"])
         (simp add: w Seek_def candidate_exact_def Let_def Seek_whence_distinct)
  qed
qed

text \<open>
  Claim C2, as amended. The source adds in \<^verbatim>\<open>int64\<close>, so the candidate is the exact one
  only when the exact sum is a signed 64-bit value (for Start it always is). For every
  reader over a backing value that Go can hold, every anchor among Start, Current and End
  and every offset whose exact candidate lies in that range: a negative candidate fails
  with the negative-position error and leaves the position as it was; any other candidate,
  however far past the end, is committed as the new position and returned without error;
  and when it is at or past the end, the \<^verbatim>\<open>Read\<close> that follows returns \<open>(0, EOF)\<close>.
\<close>

theorem Seek_candidate:
  assumes "whence = SeekStart \<or> whence = SeekCurrent \<or> whence = SeekEnd"
    and "fits_int (r_s r)"
    and "- (2 ^ 63) \<le> candidate_exact r offset whence"
    and "candidate_exact r offset whence < 2 ^ 63"
  shows
    "(candidate_exact r offset whence < 0 \<longrightarrow>
        Seek r offset whence =
          ((0, Some (ErrorNew ''reader.Reader.Seek: negative position'')),
           r\<lparr>r_lastRead := opInvalid\<rparr>))
     \<and> (0 \<le> candidate_exact r offset whence \<longrightarrow>
          sint (fst (fst (Seek r offset whence))) = candidate_exact r offset whence
        \<and> snd (fst (Seek r offset whence)) = None
        \<and> snd (Seek r offset whence)
            = r\<lparr>r_lastRead := opInvalid, r_off := fst (fst (Seek r offset whence))\<rparr>
        \<and> (int (len_S (r_s r)) \<le> candidate_exact r offset whence \<longrightarrow>
             Read (snd (Seek r offset whence)) p
               = (Return (0, Some EOF), p, snd (Seek r offset whence))))"
proof -
  from Seek_committed [OF assms] obtain pos where
    pos: "sint pos = candidate_exact r offset whence"
    and seek: "Seek r offset whence =
       (if sint pos < 0
        then ((0, Some (ErrorNew ''reader.Reader.Seek: negative position'')),
              r\<lparr>r_lastRead := opInvalid\<rparr>)
        else ((pos, None), r\<lparr>r_lastRead := opInvalid, r_off := pos\<rparr>))"
    by blast
  show ?thesis
    unfolding seek pos [symmetric] by (simp add: Read_def)
qed

text \<open>
  The two seeks of the test suite on a ten-byte reader: to Start with offset \<open>-1\<close>, which
  fails, and to Start with offset \<open>2 ^ 33\<close>, which succeeds.
\<close>

theorem Seek_candidate_witness:
  "Seek (New (Data [0x30, 0x31, 0x32, 0x33, 0x34, 0x35, 0x36, 0x37, 0x38, 0x39])) (- 1) SeekStart
     = ((0, Some (ErrorNew ''reader.Reader.Seek: negative position'')),
        New (Data [0x30, 0x31, 0x32, 0x33, 0x34, 0x35, 0x36, 0x37, 0x38, 0x39]))
   \<and> Seek (New (Data [0x30, 0x31, 0x32, 0x33, 0x34, 0x35, 0x36, 0x37, 0x38, 0x39])) (2 ^ 33) SeekStart
     = ((2 ^ 33, None),
        \<lparr>r_s = Data [0x30, 0x31, 0x32, 0x33, 0x34, 0x35, 0x36, 0x37, 0x38, 0x39],
         r_off = 2 ^ 33, r_lastRead = opInvalid\<rparr>)
   \<and> Read \<lparr>r_s = Data [0x30, 0x31, 0x32, 0x33, 0x34, 0x35, 0x36, 0x37, 0x38, 0x39],
            r_off = 2 ^ 33, r_lastRead = opInvalid\<rparr> [0, 0]
     = (Return (0, Some EOF), [0, 0],
        \<lparr>r_s = Data [0x30, 0x31, 0x32, 0x33, 0x34, 0x35, 0x36, 0x37, 0x38, 0x39],
         r_off = 2 ^ 33, r_lastRead = opInvalid\<rparr>)"
  using Seek_candidate [of SeekStart
          "New (Data [0x30, 0x31, 0x32, 0x33, 0x34, 0x35, 0x36, 0x37, 0x38, 0x39])" "- 1" "[0, 0]"]
        Seek_candidate [of SeekStart
          "New (Data [0x30, 0x31, 0x32, 0x33, 0x34, 0x35, 0x36, 0x37, 0x38, 0x39])" "2 ^ 33" "[0, 0]"]
  by (simp add: Seek_def Read_def New_def len_S_def fits_int_def candidate_exact_def
                SeekStart_def readOp_defs)

text \<open>
  Claim C2 as stated fails on a one-byte reader for the anchor End and the largest
  offset: the exact candidate is \<open>2 ^ 63\<close>, which is not negative, and the seek fails
  with the negative-position error, because the sum wrapped.
\<close>

theorem Seek_wraps_counterexample:
  "candidate_exact (New (Data [0x61])) 0x7FFFFFFFFFFFFFFF SeekEnd = 9223372036854775808
   \<and> Seek (New (Data [0x61])) 0x7FFFFFFFFFFFFFFF SeekEnd
     = ((0, Some (ErrorNew ''reader.Reader.Seek: negative position'')),
        \<lparr>r_s = Data [0x61], r_off = 0, r_lastRead = opInvalid\<rparr>)"
  by (simp add: candidate_exact_def Seek_def New_def len_S_def
                SeekStart_def SeekCurrent_def SeekEnd_def readOp_defs)

section \<open>ReadRune and UnreadRune\<close>

text \<open>
  The decoder reports a width between 1 and 4 that does not exceed the bytes it was given,
  whenever it is given at least one byte.
\<close>

lemma first_cases:
  "first b = 0xF0 \<or> first b = 0xF1 \<or> first b = 0x02 \<or> first b = 0x13 \<or> first b = 0x03
   \<or> first b = 0x23 \<or> first b = 0x34 \<or> first b = 0x04 \<or> first b = 0x44"
  by (simp add: first_def)

lemma DecodeRune_width_aux:
  assumes "x = 0xF0 \<or> x = 0xF1 \<or> x = 0x02 \<or> x = 0x13 \<or> x = (0x03 :: byte)
   \<or> x = 0x23 \<or> x = 0x34 \<or> x = 0x04 \<or> x = 0x44"
  shows "(0xF0 \<le> x) \<or> unat (x AND 7) \<in> {2, 3, 4}"
  using assms by auto

lemma DecodeRune_width:
  assumes "p \<noteq> []"
  shows "snd (DecodeRune p) \<in> {1, 2, 3, 4} \<and> snd (DecodeRune p) \<le> length p"
proof -
  from assms have n: "1 \<le> length p" by (cases p) auto
  have "0xF0 \<le> first (p ! 0) \<or> unat (first (p ! 0) AND 7) \<in> {2, 3, 4}"
    by (rule DecodeRune_width_aux [OF first_cases])
  then show ?thesis
  proof
    assume "0xF0 \<le> first (p ! 0)"
    with n assms show ?thesis by (simp add: DecodeRune_def Let_def)
  next
    assume "unat (first (p ! 0) AND 7) \<in> {2, 3, 4}"
    with n assms show ?thesis by (auto simp add: DecodeRune_def Let_def)
  qed
qed

lemma UnreadRune_after_width:
  "w \<in> {1, 2, 3, 4} \<Longrightarrow>
   UnreadRune (r\<lparr>r_off := r_off r + of_nat w, r_lastRead := of_nat w\<rparr>)
     = (None, r\<lparr>r_lastRead := opInvalid\<rparr>)"
  by (auto simp: UnreadRune_def readOp_defs)

lemma UnreadRune_opInvalid:
  "UnreadRune (r\<lparr>r_lastRead := opInvalid\<rparr>)
     = (Some (ErrorNew ''reader.Reader.UnreadRune: previous operation was not ReadRune''),
        r\<lparr>r_lastRead := opInvalid\<rparr>)"
  by (simp add: UnreadRune_def readOp_defs)

lemma slice_from_nonempty:
  "slice_from b i = Return rest \<Longrightarrow> sint i < int (length b) \<Longrightarrow> rest \<noteq> []"
  by (auto simp: slice_from_def split: if_splits)

lemma ReadRune_success_shape:
  assumes "ReadRune r = (Return (ch, w, None), r1)"
  shows "w \<in> {1, 2, 3, 4} \<and> r1 = r\<lparr>r_off := r_off r + of_nat w, r_lastRead := of_nat w\<rparr>"
proof (cases "int (len_S (r_s r)) \<le> sint (r_off r)")
  case True
  with assms show ?thesis by (simp add: ReadRune_def)
next
  case False
  show ?thesis
  proof (cases "index_at (bytes_of (r_s r)) (r_off r)")
    case (Panic msg)
    with False assms show ?thesis by (simp add: ReadRune_def)
  next
    case (Return c)
    show ?thesis
    proof (cases "c < RuneSelf")
      case True
      with False Return assms show ?thesis
        by (auto simp: ReadRune_def readOp_defs)
    next
      case slow: False
      show ?thesis
      proof (cases "slice_from (bytes_of (r_s r)) (r_off r)")
        case (Panic msg)
        with False Return slow assms show ?thesis by (simp add: ReadRune_def)
      next
        case rest: (Return rest)
        from False have "rest \<noteq> []"
          using slice_from_nonempty [OF rest] by (simp add: len_S_def)
        then have "snd (DecodeRune rest) \<in> {1, 2, 3, 4}"
          using DecodeRune_width by blast
        with False Return slow rest assms show ?thesis
          by (auto simp: ReadRune_def split: prod.splits)
      qed
    qed
  qed
qed

text \<open>
  Claim C3. Whenever \<^verbatim>\<open>ReadRune\<close> succeeds with width \<open>w\<close>, the width is between 1
  and 4 and the position has advanced by it; the \<^verbatim>\<open>UnreadRune\<close> that follows succeeds,
  takes \<open>w\<close> off the position, which is then exactly the position before the
  \<^verbatim>\<open>ReadRune\<close>, resets \<open>lastRead\<close> to \<open>opInvalid\<close> and leaves the backing value alone;
  a second \<^verbatim>\<open>UnreadRune\<close> right after it fails with the error for a previous operation
  that was not \<^verbatim>\<open>ReadRune\<close> and changes nothing.
\<close>

theorem ReadRune_UnreadRune_roundtrip:
  assumes "ReadRune r = (Return (ch, w, None), r1)"
  shows "w \<in> {1, 2, 3, 4}
    \<and> r_off r1 = r_off r + of_nat w
    \<and> fst (UnreadRune r1) = None
    \<and> r_off (snd (UnreadRune r1)) = r_off r
    \<and> r_off (snd (UnreadRune r1)) = r_off r1 - of_nat w
    \<and> r_lastRead (snd (UnreadRune r1)) = opInvalid
    \<and> r_s (snd (UnreadRune r1)) = r_s r
    \<and> UnreadRune (snd (UnreadRune r1))
        = (Some (ErrorNew ''reader.Reader.UnreadRune: previous operation was not ReadRune''),
           snd (UnreadRune r1))"
proof -
  from assms have w: "w \<in> {1, 2, 3, 4}"
    and r1: "r1 = r\<lparr>r_off := r_off r + of_nat w, r_lastRead := of_nat w\<rparr>"
    using ReadRune_success_shape by blast+
  from w have u: "UnreadRune r1 = (None, r\<lparr>r_lastRead := opInvalid\<rparr>)"
    unfolding r1 by (rule UnreadRune_after_width)
  from w r1 u show ?thesis
    by (simp add: UnreadRune_opInvalid)
qed

text \<open>
  The round trip on the three-byte encoding of U+4E16 that starts at position 1.
\<close>

theorem ReadRune_UnreadRune_roundtrip_witness:
  "ReadRune \<lparr>r_s = Data [0x61, 0xE4, 0xB8, 0x96], r_off = 1, r_lastRead = opRead\<rparr>
     = (Return (0x4E16, 3, None),
        \<lparr>r_s = Data [0x61, 0xE4, 0xB8, 0x96], r_off = 4, r_lastRead = opReadRune3\<rparr>)
   \<and> UnreadRune \<lparr>r_s = Data [0x61, 0xE4, 0xB8, 0x96], r_off = 4, r_lastRead = opReadRune3\<rparr>
     = (None, \<lparr>r_s = Data [0x61, 0xE4, 0xB8, 0x96], r_off = 1, r_lastRead = opInvalid\<rparr>)
   \<and> fst (UnreadRune \<lparr>r_s = Data [0x61, 0xE4, 0xB8, 0x96], r_off = 1, r_lastRead = opInvalid\<rparr>)
     \<noteq> None"
proof -
  have rd: "ReadRune \<lparr>r_s = Data [0x61, 0xE4, 0xB8, 0x96], r_off = 1, r_lastRead = opRead\<rparr>
     = (Return (0x4E16, 3, None),
        \<lparr>r_s = Data [0x61, 0xE4, 0xB8, 0x96], r_off = 4, r_lastRead = opReadRune3\<rparr>)"
    by (simp add: ReadRune_def len_S_def index_at_def slice_from_def RuneSelf_def
                  DecodeRune_def first_def acceptRanges_def readOp_defs)
  from ReadRune_UnreadRune_roundtrip [OF rd] rd show ?thesis
    by (simp add: UnreadRune_def readOp_defs)
qed

section \<open>ReadAt\<close>

lemma ReadAt_reader: "snd (snd (ReadAt r p off)) = r"
  by (simp add: ReadAt_def Let_def split: result.splits prod.splits)

lemma ReadAt_in_range:
  assumes "0 \<le> sint off" and "sint off < int (len_S (r_s r))"
  shows "ReadAt r p off =
     (Return (min (length p) (len_S (r_s r) - nat (sint off)),
              if min (length p) (len_S (r_s r) - nat (sint off)) < length p
              then Some EOF else None),
      take (min (length p) (len_S (r_s r) - nat (sint off)))
           (drop (nat (sint off)) (bytes_of (r_s r)))
        @ drop (min (length p) (len_S (r_s r) - nat (sint off))) p,
      r)"
  using assms
  by (simp add: ReadAt_def slice_from_def copy_def len_S_def Let_def)

text \<open>
  Claim C4. For every reader, destination buffer and offset, negative and past the end
  included, \<^verbatim>\<open>ReadAt\<close> leaves the reader as it was: the backing value, the position and
  \<open>lastRead\<close>. What it returns depends only on the offset, the length of the
  destination and the bytes of the backing value: on two readers over the same bytes,
  whatever their positions and last operations, and two destinations of the same length, it
  returns the same count and status and writes the same bytes, and the destination beyond
  the count keeps what it held. Calling it again on the reader it leaves, with the same
  arguments, gives the same again.
\<close>

theorem ReadAt_frame:
  "snd (snd (ReadAt r p off)) = r
   \<and> r_s (snd (snd (ReadAt r p off))) = r_s r
   \<and> r_off (snd (snd (ReadAt r p off))) = r_off r
   \<and> r_lastRead (snd (snd (ReadAt r p off))) = r_lastRead r
   \<and> ReadAt (snd (snd (ReadAt r p off))) p off = ReadAt r p off
   \<and> (bytes_of (r_s r') = bytes_of (r_s r) \<and> length p' = length p \<longrightarrow>
        fst (ReadAt r' p' off) = fst (ReadAt r p off)
      \<and> (\<forall>n e. fst (ReadAt r p off) = Return (n, e) \<longrightarrow>
            take n (fst (snd (ReadAt r' p' off))) = take n (fst (snd (ReadAt r p off)))
          \<and> drop n (fst (snd (ReadAt r p off))) = drop n p))"
proof -
  have frame: "snd (snd (ReadAt r p off)) = r"
    by (rule ReadAt_reader)
  have pure: "fst (ReadAt r' p' off) = fst (ReadAt r p off)
      \<and> (\<forall>n e. fst (ReadAt r p off) = Return (n, e) \<longrightarrow>
            take n (fst (snd (ReadAt r' p' off))) = take n (fst (snd (ReadAt r p off)))
          \<and> drop n (fst (snd (ReadAt r p off))) = drop n p)"
    if same: "bytes_of (r_s r') = bytes_of (r_s r)" "length p' = length p"
  proof -
    from same have len: "len_S (r_s r') = len_S (r_s r)"
      by (simp add: len_S_def)
    consider (neg) "sint off < 0"
      | (past) "0 \<le> sint off" "int (len_S (r_s r)) \<le> sint off"
      | (inside) "0 \<le> sint off" "sint off < int (len_S (r_s r))"
      by linarith
    then show ?thesis
    proof cases
      case neg
      then show ?thesis by (simp add: ReadAt_def)
    next
      case past
      then show ?thesis by (simp add: ReadAt_def len)
    next
      case inside
      then show ?thesis
        using ReadAt_in_range [of off r p] ReadAt_in_range [of off r' p']
        by (simp add: len same len_S_def)
    qed
  qed
  from frame pure show ?thesis
    by simp
qed

text \<open>
  A read at offset 1 of a three-byte backing value, from a reader that is in the middle of
  it and from a fresh one, into two different two-byte buffers.
\<close>

theorem ReadAt_frame_witness:
  "ReadAt \<lparr>r_s = Data [0x61, 0x62, 0x63], r_off = 2, r_lastRead = opReadRune1\<rparr> [0, 0] 1
     = (Return (2, None), [0x62, 0x63],
        \<lparr>r_s = Data [0x61, 0x62, 0x63], r_off = 2, r_lastRead = opReadRune1\<rparr>)
   \<and> fst (ReadAt (New (Data [0x61, 0x62, 0x63])) [7, 7] 1) = Return (2, None)
   \<and> fst (snd (ReadAt (New (Data [0x61, 0x62, 0x63])) [7, 7] 1)) = [0x62, 0x63]"
  using ReadAt_frame [of "\<lparr>r_s = Data [0x61, 0x62, 0x63], r_off = 2, r_lastRead = opReadRune1\<rparr>"
          "[0, 0]" 1 "New (Data [0x61, 0x62, 0x63])" "[7, 7]"]
  by (simp add: ReadAt_def New_def len_S_def slice_from_def copy_def)

text \<open>
  Claim C5. For every backing value, destination buffer and offset: a negative offset
  fails with the negative-offset error and count 0; an offset at or past the length
  returns \<open>(0, EOF)\<close>; any other offset copies exactly
  \<open>min (length p) (len - off)\<close> bytes, the ones that start at the offset, into the front
  of the destination, with status \<open>EOF\<close> exactly when that count is less than the length
  of the destination, in which case the count is positive, and with no error otherwise.
\<close>

theorem ReadAt_result:
  "(sint off < 0 \<longrightarrow>
      ReadAt r p off
        = (Return (0, Some (ErrorNew ''reader.Reader.ReadAt: negative offset'')), p, r))
   \<and> (int (len_S (r_s r)) \<le> sint off \<longrightarrow>
        ReadAt r p off = (Return (0, Some EOF), p, r))
   \<and> (0 \<le> sint off \<and> sint off < int (len_S (r_s r)) \<longrightarrow>
        (\<exists>n. n = min (length p) (len_S (r_s r) - nat (sint off))
           \<and> ReadAt r p off =
               (Return (n, if n < length p then Some EOF else None),
                take n (drop (nat (sint off)) (bytes_of (r_s r))) @ drop n p, r)
           \<and> take n (fst (snd (ReadAt r p off)))
               = take n (drop (nat (sint off)) (bytes_of (r_s r)))
           \<and> (n < length p \<longrightarrow> 0 < n)))"
proof (intro conjI impI)
  assume "sint off < 0"
  then show "ReadAt r p off
        = (Return (0, Some (ErrorNew ''reader.Reader.ReadAt: negative offset'')), p, r)"
    by (simp add: ReadAt_def)
next
  assume "int (len_S (r_s r)) \<le> sint off"
  then show "ReadAt r p off = (Return (0, Some EOF), p, r)"
    by (simp add: ReadAt_def)
next
  assume inside: "0 \<le> sint off \<and> sint off < int (len_S (r_s r))"
  define n where "n = min (length p) (len_S (r_s r) - nat (sint off))"
  from inside have eq: "ReadAt r p off =
               (Return (n, if n < length p then Some EOF else None),
                take n (drop (nat (sint off)) (bytes_of (r_s r))) @ drop n p, r)"
    unfolding n_def by (intro ReadAt_in_range) simp_all
  have avail: "n \<le> length (drop (nat (sint off)) (bytes_of (r_s r)))"
    by (simp add: n_def len_S_def)
  from inside have pos: "n < length p \<longrightarrow> 0 < n"
    by (auto simp: n_def min_def)
  from eq avail pos
  show "\<exists>n. n = min (length p) (len_S (r_s r) - nat (sint off))
           \<and> ReadAt r p off =
               (Return (n, if n < length p then Some EOF else None),
                take n (drop (nat (sint off)) (bytes_of (r_s r))) @ drop n p, r)
           \<and> take n (fst (snd (ReadAt r p off)))
               = take n (drop (nat (sint off)) (bytes_of (r_s r)))
           \<and> (n < length p \<longrightarrow> 0 < n)"
    by (intro exI [of _ n]) (simp add: n_def)
qed

text \<open>
  The reads of the test suite on the ten bytes \<open>0123456789\<close>: offset 1 into ten bytes
  gives nine bytes and \<open>EOF\<close>, offset 1 into nine bytes gives them without error, offset
  11 gives \<open>(0, EOF)\<close> and offset \<open>-1\<close> the negative-offset error.
\<close>

theorem ReadAt_result_witness:
  "ReadAt (New (Data [0x30, 0x31, 0x32, 0x33, 0x34, 0x35, 0x36, 0x37, 0x38, 0x39]))
          [0, 0, 0, 0, 0, 0, 0, 0, 0, 0] 1
     = (Return (9, Some EOF), [0x31, 0x32, 0x33, 0x34, 0x35, 0x36, 0x37, 0x38, 0x39, 0],
        New (Data [0x30, 0x31, 0x32, 0x33, 0x34, 0x35, 0x36, 0x37, 0x38, 0x39]))
   \<and> ReadAt (New (Data [0x30, 0x31, 0x32, 0x33, 0x34, 0x35, 0x36, 0x37, 0x38, 0x39]))
          [0, 0, 0, 0, 0, 0, 0, 0, 0] 1
     = (Return (9, None), [0x31, 0x32, 0x33, 0x34, 0x35, 0x36, 0x37, 0x38, 0x39],
        New (Data [0x30, 0x31, 0x32, 0x33, 0x34, 0x35, 0x36, 0x37, 0x38, 0x39]))
   \<and> ReadAt (New (Data [0x30, 0x31, 0x32, 0x33, 0x34, 0x35, 0x36, 0x37, 0x38, 0x39]))
          [0, 0] 11
     = (Return (0, Some EOF), [0, 0],
        New (Data [0x30, 0x31, 0x32, 0x33, 0x34, 0x35, 0x36, 0x37, 0x38, 0x39]))
   \<and> ReadAt (New (Data [0x30, 0x31, 0x32, 0x33, 0x34, 0x35, 0x36, 0x37, 0x38, 0x39]))
          [] (- 1)
     = (Return (0, Some (ErrorNew ''reader.Reader.ReadAt: negative offset'')), [],
        New (Data [0x30, 0x31, 0x32, 0x33, 0x34, 0x35, 0x36, 0x37, 0x38, 0x39]))"
  using ReadAt_result [of 1 "New (Data [0x30, 0x31, 0x32, 0x33, 0x34, 0x35, 0x36, 0x37, 0x38, 0x39])"
          "[0, 0, 0, 0, 0, 0, 0, 0, 0, 0]"]
        ReadAt_result [of 1 "New (Data [0x30, 0x31, 0x32, 0x33, 0x34, 0x35, 0x36, 0x37, 0x38, 0x39])"
          "[0, 0, 0, 0, 0, 0, 0, 0, 0]"]
        ReadAt_result [of 11 "New (Data [0x30, 0x31, 0x32, 0x33, 0x34, 0x35, 0x36, 0x37, 0x38, 0x39])"
          "[0, 0]"]
        ReadAt_result [of "- 1" "New (Data [0x30, 0x31, 0x32, 0x33, 0x34, 0x35, 0x36, 0x37, 0x38, 0x39])"
          "[]"]
  by (simp add: ReadAt_def New_def len_S_def slice_from_def copy_def)

section \<open>WriteTo\<close>

lemma WriteTo_at_end:
  "int (len_S (r_s r)) \<le> sint (r_off r) \<Longrightarrow>
   WriteTo r w ws = (Return (0, None), r\<lparr>r_lastRead := opInvalid\<rparr>, ws)"
  by (simp add: WriteTo_def)

lemma WriteTo_offered:
  assumes "0 \<le> sint (r_off r)" and "sint (r_off r) < int (len_S (r_s r))"
    and "w ws (drop (nat (sint (r_off r))) (bytes_of (r_s r))) = ((m, err), ws')"
  shows "WriteTo r w ws =
     (if int (length (drop (nat (sint (r_off r))) (bytes_of (r_s r)))) < sint m
      then (Panic ''reader.Reader.WriteTo: invalid Write count'',
            r\<lparr>r_lastRead := opInvalid\<rparr>, ws')
      else (Return (m, if sint m < int (length (drop (nat (sint (r_off r))) (bytes_of (r_s r))))
                          \<and> err = None
                       then Some ErrShortWrite else err),
            r\<lparr>r_lastRead := opInvalid, r_off := r_off r + m\<rparr>, ws'))"
  using assms
  by (auto simp: WriteTo_def slice_from_def len_S_def Let_def)

lemma WriteTo_advance:
  assumes "fits_int (r_s r)" and "0 \<le> sint (r_off r)"
    and "sint m \<le> int (len_S (r_s r)) - sint (r_off r)"
  shows "sint (r_off r + m) = sint (r_off r) + sint m"
proof (rule sint_add_exact)
  from assms(2) sint_ge [of m] show "- (2 ^ 63) \<le> sint (r_off r) + sint m"
    by simp
  from assms(1,3) show "sint (r_off r) + sint m < 2 ^ 63"
    by (simp add: fits_int_def)
qed

text \<open>
  Claim C6, as amended. The claim speaks of every cursor state; with a negative position,
  which is below every length, the source panics on slicing before it calls the writer, so
  the claim is stated for the positions that are not negative. For every reader whose
  position is not negative, every writer and every state of the writer: at or past the end, \<^verbatim>\<open>WriteTo\<close> returns \<open>(0, nil)\<close>, not \<open>EOF\<close>,
  and does not call the writer. Before the end it calls the writer once, with all the
  bytes from the position on. A reported count above the number of bytes offered is a
  panic. Otherwise the position moves by the reported count (exactly, over a backing value
  that Go can hold), the count is returned, and the status is the writer's own error when
  it reported one, the short-write error when it reported none and took fewer bytes than
  offered, and no error when it took them all.
\<close>

theorem WriteTo_transfer:
  "(int (len_S (r_s r)) \<le> sint (r_off r) \<longrightarrow>
      WriteTo r w ws = (Return (0, None), r\<lparr>r_lastRead := opInvalid\<rparr>, ws))
   \<and> (0 \<le> sint (r_off r) \<and> sint (r_off r) < int (len_S (r_s r)) \<longrightarrow>
        (\<exists>m err ws'.
           w ws (drop (nat (sint (r_off r))) (bytes_of (r_s r))) = ((m, err), ws')
         \<and> (int (len_S (r_s r)) - sint (r_off r) < sint m \<longrightarrow>
              WriteTo r w ws =
                (Panic ''reader.Reader.WriteTo: invalid Write count'',
                 r\<lparr>r_lastRead := opInvalid\<rparr>, ws'))
         \<and> (sint m \<le> int (len_S (r_s r)) - sint (r_off r) \<longrightarrow>
              WriteTo r w ws =
                (Return (m, if sint m < int (len_S (r_s r)) - sint (r_off r) \<and> err = None
                            then Some ErrShortWrite else err),
                 r\<lparr>r_lastRead := opInvalid, r_off := r_off r + m\<rparr>, ws')
            \<and> (fits_int (r_s r) \<longrightarrow>
                 sint (r_off (fst (snd (WriteTo r w ws)))) = sint (r_off r) + sint m))))"
proof (intro conjI impI)
  assume "int (len_S (r_s r)) \<le> sint (r_off r)"
  then show "WriteTo r w ws = (Return (0, None), r\<lparr>r_lastRead := opInvalid\<rparr>, ws)"
    by (rule WriteTo_at_end)
next
  assume inside: "0 \<le> sint (r_off r) \<and> sint (r_off r) < int (len_S (r_s r))"
  obtain m err ws' where
    call: "w ws (drop (nat (sint (r_off r))) (bytes_of (r_s r))) = ((m, err), ws')"
    by (metis surj_pair)
  from inside
  have offered: "int (length (drop (nat (sint (r_off r))) (bytes_of (r_s r))))
      = int (len_S (r_s r)) - sint (r_off r)"
    by (auto simp: len_S_def)
  from inside call have eq: "WriteTo r w ws =
     (if int (len_S (r_s r)) - sint (r_off r) < sint m
      then (Panic ''reader.Reader.WriteTo: invalid Write count'',
            r\<lparr>r_lastRead := opInvalid\<rparr>, ws')
      else (Return (m, if sint m < int (len_S (r_s r)) - sint (r_off r) \<and> err = None
                       then Some ErrShortWrite else err),
            r\<lparr>r_lastRead := opInvalid, r_off := r_off r + m\<rparr>, ws'))"
    using WriteTo_offered [of r w ws m err ws'] unfolding offered by simp
  have adv: "sint (r_off r + m) = sint (r_off r) + sint m"
    if "fits_int (r_s r)" "sint m \<le> int (len_S (r_s r)) - sint (r_off r)"
    using that inside by (intro WriteTo_advance) simp_all
  show "\<exists>m err ws'.
           w ws (drop (nat (sint (r_off r))) (bytes_of (r_s r))) = ((m, err), ws')
         \<and> (int (len_S (r_s r)) - sint (r_off r) < sint m \<longrightarrow>
              WriteTo r w ws =
                (Panic ''reader.Reader.WriteTo: invalid Write count'',
                 r\<lparr>r_lastRead := opInvalid\<rparr>, ws'))
         \<and> (sint m \<le> int (len_S (r_s r)) - sint (r_off r) \<longrightarrow>
              WriteTo r w ws =
                (Return (m, if sint m < int (len_S (r_s r)) - sint (r_off r) \<and> err = None
                            then Some ErrShortWrite else err),
                 r\<lparr>r_lastRead := opInvalid, r_off := r_off r + m\<rparr>, ws')
            \<and> (fits_int (r_s r) \<longrightarrow>
                 sint (r_off (fst (snd (WriteTo r w ws)))) = sint (r_off r) + sint m))"
    using call eq adv by (intro exI [of _ m] exI [of _ err] exI [of _ ws']) simp
qed

text \<open>
  A reader at position 1 of the bytes \<open>abc\<close> and four writers that keep the list of what
  they were offered: one takes everything, one takes a single byte and reports no error,
  one takes a single byte and reports an error of its own, one claims three bytes of the two
  offered. Each is called once, with \<open>bc\<close>. The last line is the exhausted reader.
\<close>

theorem WriteTo_transfer_witness:
  "WriteTo \<lparr>r_s = Data [0x61, 0x62, 0x63], r_off = 1, r_lastRead = opReadRune1\<rparr>
      (\<lambda>ws bs. ((of_nat (length bs), None), ws @ [bs])) []
     = (Return (2, None),
        \<lparr>r_s = Data [0x61, 0x62, 0x63], r_off = 3, r_lastRead = opInvalid\<rparr>, [[0x62, 0x63]])
   \<and> WriteTo \<lparr>r_s = Data [0x61, 0x62, 0x63], r_off = 1, r_lastRead = opReadRune1\<rparr>
      (\<lambda>ws bs. ((1, None), ws @ [bs])) []
     = (Return (1, Some ErrShortWrite),
        \<lparr>r_s = Data [0x61, 0x62, 0x63], r_off = 2, r_lastRead = opInvalid\<rparr>, [[0x62, 0x63]])
   \<and> WriteTo \<lparr>r_s = Data [0x61, 0x62, 0x63], r_off = 1, r_lastRead = opReadRune1\<rparr>
      (\<lambda>ws bs. ((1, Some (ErrorNew ''disk full'')), ws @ [bs])) []
     = (Return (1, Some (ErrorNew ''disk full'')),
        \<lparr>r_s = Data [0x61, 0x62, 0x63], r_off = 2, r_lastRead = opInvalid\<rparr>, [[0x62, 0x63]])
   \<and> WriteTo \<lparr>r_s = Data [0x61, 0x62, 0x63], r_off = 1, r_lastRead = opReadRune1\<rparr>
      (\<lambda>ws bs. ((3, None), ws @ [bs])) []
     = (Panic ''reader.Reader.WriteTo: invalid Write count'',
        \<lparr>r_s = Data [0x61, 0x62, 0x63], r_off = 1, r_lastRead = opInvalid\<rparr>, [[0x62, 0x63]])
   \<and> WriteTo \<lparr>r_s = Data [0x61, 0x62, 0x63], r_off = 3, r_lastRead = opReadRune1\<rparr>
      (\<lambda>ws bs. ((of_nat (length bs), None), ws @ [bs])) []
     = (Return (0, None),
        \<lparr>r_s = Data [0x61, 0x62, 0x63], r_off = 3, r_lastRead = opInvalid\<rparr>, [])"
  using WriteTo_transfer [of "\<lparr>r_s = Data [0x61, 0x62, 0x63], r_off = 1, r_lastRead = opReadRune1\<rparr>"
          "\<lambda>ws bs. ((of_nat (length bs), None), ws @ [bs])" "[]"]
        WriteTo_transfer [of "\<lparr>r_s = Data [0x61, 0x62, 0x63], r_off = 1, r_lastRead = opReadRune1\<rparr>"
          "\<lambda>ws bs. ((1, None), ws @ [bs])" "[]"]
        WriteTo_transfer [of "\<lparr>r_s = Data [0x61, 0x62, 0x63], r_off = 1, r_lastRead = opReadRune1\<rparr>"
          "\<lambda>ws bs. ((1, Some (ErrorNew ''disk full'')), ws @ [bs])" "[]"]
        WriteTo_transfer [of "\<lparr>r_s = Data [0x61, 0x62, 0x63], r_off = 1, r_lastRead = opReadRune1\<rparr>"
          "\<lambda>ws bs. ((3, None), ws @ [bs])" "[]"]
        WriteTo_transfer [of "\<lparr>r_s = Data [0x61, 0x62, 0x63], r_off = 3, r_lastRead = opReadRune1\<rparr>"
          "\<lambda>ws bs. ((of_nat (length bs), None), ws @ [bs])" "[]"]
  by (simp add: WriteTo_def len_S_def slice_from_def fits_int_def readOp_defs)

text \<open>
  Claim C6 as stated fails at a negative position, which \<^verbatim>\<open>WriteTo\<close> itself reaches.
  On a fresh one-byte reader a writer that reports the count \<open>-1\<close> leaves position
  \<open>-1\<close>. That position is below the length, so the claim has the next \<^verbatim>\<open>WriteTo\<close>
  offer the remaining bytes to its writer; the source slices at the negative position,
  which panics, and the writer is never called: its list of offered slices stays empty.
\<close>

theorem WriteTo_negative_position_counterexample:
  "fst (snd (WriteTo (New (Data [0x61])) (\<lambda>ws bs. ((- 1, None), ws @ [bs])) []))
     = \<lparr>r_s = Data [0x61], r_off = - 1, r_lastRead = opInvalid\<rparr>
   \<and> sint (r_off \<lparr>r_s = Data [0x61], r_off = - 1, r_lastRead = opInvalid\<rparr>)
       < int (len_S (r_s \<lparr>r_s = Data [0x61], r_off = - 1, r_lastRead = opInvalid\<rparr>))
   \<and> (case fst (WriteTo \<lparr>r_s = Data [0x61], r_off = - 1, r_lastRead = opInvalid\<rparr>
                   (\<lambda>ws bs. ((of_nat (length bs), None), ws @ [bs])) [])
       of Panic msg \<Rightarrow> True | Return res \<Rightarrow> False)
   \<and> snd (WriteTo \<lparr>r_s = Data [0x61], r_off = - 1, r_lastRead = opInvalid\<rparr>
              (\<lambda>ws bs. ((of_nat (length bs), None), ws @ [bs])) [])
     = (\<lparr>r_s = Data [0x61], r_off = - 1, r_lastRead = opInvalid\<rparr>, [])"
  by (simp add: New_def WriteTo_def len_S_def slice_from_def readOp_defs)

section \<open>UnreadByte\<close>

text \<open>
  Claim C7. For every reader, \<^verbatim>\<open>UnreadByte\<close> fails exactly when the position is at most
  0, with the at-beginning error and without changing the reader. Otherwise it succeeds,
  takes exactly 1 off the position and resets \<open>lastRead\<close> to \<open>opInvalid\<close>. It never
  looks at \<open>lastRead\<close>: with any other value in that field it gives the same status and
  the same position. So it succeeds right after a seek to a positive position, where the
  previous call was no byte read.
\<close>

theorem UnreadByte_guard:
  "(fst (UnreadByte r) \<noteq> None \<longleftrightarrow> sint (r_off r) \<le> 0)
   \<and> (sint (r_off r) \<le> 0 \<longrightarrow>
        UnreadByte r
          = (Some (ErrorNew ''reader.Reader.UnreadByte: at beginning of slice or string''), r))
   \<and> (0 < sint (r_off r) \<longrightarrow>
        UnreadByte r = (None, r\<lparr>r_lastRead := opInvalid, r_off := r_off r - 1\<rparr>)
      \<and> sint (r_off (snd (UnreadByte r))) = sint (r_off r) - 1
      \<and> r_lastRead (snd (UnreadByte r)) = opInvalid)
   \<and> fst (UnreadByte (r\<lparr>r_lastRead := x\<rparr>)) = fst (UnreadByte r)
   \<and> r_off (snd (UnreadByte (r\<lparr>r_lastRead := x\<rparr>))) = r_off (snd (UnreadByte r))
   \<and> (0 < sint k \<longrightarrow> fst (UnreadByte (snd (Seek r k SeekStart))) = None)"
proof -
  have dec: "sint (r_off r - 1) = sint (r_off r) - 1" if "0 < sint (r_off r)"
  proof -
    have "sint (r_off r) < 2 ^ 63"
      using sint_lt [of "r_off r"] by simp
    with that show ?thesis
      using sint_sub_exact [of "r_off r" 1] by simp
  qed
  have seek: "fst (UnreadByte (snd (Seek r k SeekStart))) = None" if "0 < sint k"
    using that by (simp add: Seek_def UnreadByte_def Let_def)
  from dec seek show ?thesis
    by (simp add: UnreadByte_def)
qed

text \<open>
  At position 0 after a byte was read and unread, and at position 2 right after a seek.
\<close>

theorem UnreadByte_guard_witness:
  "UnreadByte \<lparr>r_s = Data [0x61, 0x62, 0x63], r_off = 0, r_lastRead = opRead\<rparr>
     = (Some (ErrorNew ''reader.Reader.UnreadByte: at beginning of slice or string''),
        \<lparr>r_s = Data [0x61, 0x62, 0x63], r_off = 0, r_lastRead = opRead\<rparr>)
   \<and> snd (Seek (New (Data [0x61, 0x62, 0x63])) 2 SeekStart)
     = \<lparr>r_s = Data [0x61, 0x62, 0x63], r_off = 2, r_lastRead = opInvalid\<rparr>
   \<and> UnreadByte \<lparr>r_s = Data [0x61, 0x62, 0x63], r_off = 2, r_lastRead = opInvalid\<rparr>
     = (None, \<lparr>r_s = Data [0x61, 0x62, 0x63], r_off = 1, r_lastRead = opInvalid\<rparr>)"
  using UnreadByte_guard [of "\<lparr>r_s = Data [0x61, 0x62, 0x63], r_off = 0, r_lastRead = opRead\<rparr>" 0 2]
        UnreadByte_guard [of "\<lparr>r_s = Data [0x61, 0x62, 0x63], r_off = 2, r_lastRead = opInvalid\<rparr>" 0 2]
  by (simp add: UnreadByte_def Seek_def New_def SeekStart_def readOp_defs)

section \<open>Reset\<close>

lemma Read_at_nat:
  assumes "fits_int x" and "k < len_S x"
  shows "Read \<lparr>r_s = x, r_off = of_nat k, r_lastRead = l\<rparr> p =
     (Return (min (length p) (len_S x - k), None),
      take (min (length p) (len_S x - k)) (drop k (bytes_of x))
        @ drop (min (length p) (len_S x - k)) p,
      \<lparr>r_s = x, r_off = of_nat (k + min (length p) (len_S x - k)),
       r_lastRead = (if 0 < min (length p) (len_S x - k) then opRead else opInvalid)\<rparr>)"
proof -
  from assms have k: "sint (of_nat k :: int64) = int k"
    by (simp add: fits_int_def sint_of_nat_exact)
  with assms(2) show ?thesis
    by (simp add: Read_def slice_from_def copy_def len_S_def Let_def)
qed

text \<open>
  Claim C8. For every reader, whatever its \<open>lastRead\<close>, and every new backing value,
  \<^verbatim>\<open>Reset\<close> leaves exactly the reader that \<^verbatim>\<open>New\<close> makes: the new backing value,
  position 0 and \<open>lastRead = opInvalid\<close>. An \<^verbatim>\<open>UnreadRune\<close> right after it fails with
  the error for a previous operation that was not \<^verbatim>\<open>ReadRune\<close>. The reads that follow
  return the new content from its start: over a backing value that Go can hold, a
  \<^verbatim>\<open>Read\<close> at any position \<open>k\<close> before the end, 0 first, copies the bytes that start at
  \<open>k\<close> and moves the position past them; and once the position has reached the length,
  \<^verbatim>\<open>Read\<close> returns \<open>(0, EOF)\<close>.
\<close>

theorem Reset_fresh:
  "Reset r x = \<lparr>r_s = x, r_off = 0, r_lastRead = opInvalid\<rparr>
   \<and> Reset r x = New x
   \<and> UnreadRune (Reset r x)
       = (Some (ErrorNew ''reader.Reader.UnreadRune: previous operation was not ReadRune''),
          Reset r x)
   \<and> (fits_int x \<and> 0 < len_S x \<longrightarrow>
        Read (Reset r x) p =
          (Return (min (length p) (len_S x), None),
           take (min (length p) (len_S x)) (bytes_of x) @ drop (min (length p) (len_S x)) p,
           \<lparr>r_s = x, r_off = of_nat (min (length p) (len_S x)),
            r_lastRead = (if 0 < min (length p) (len_S x) then opRead else opInvalid)\<rparr>))
   \<and> (fits_int x \<and> k < len_S x \<longrightarrow>
        Read \<lparr>r_s = x, r_off = of_nat k, r_lastRead = l\<rparr> p =
          (Return (min (length p) (len_S x - k), None),
           take (min (length p) (len_S x - k)) (drop k (bytes_of x))
             @ drop (min (length p) (len_S x - k)) p,
           \<lparr>r_s = x, r_off = of_nat (k + min (length p) (len_S x - k)),
            r_lastRead = (if 0 < min (length p) (len_S x - k) then opRead else opInvalid)\<rparr>))
   \<and> (fits_int x \<longrightarrow>
        Read \<lparr>r_s = x, r_off = of_nat (len_S x), r_lastRead = l\<rparr> p =
          (Return (0, Some EOF), p, \<lparr>r_s = x, r_off = of_nat (len_S x), r_lastRead = l\<rparr>))"
proof -
  have fresh: "Reset r x = \<lparr>r_s = x, r_off = 0, r_lastRead = opInvalid\<rparr>"
    by (simp add: Reset_def readOp_defs)
  have new: "Reset r x = New x"
    by (simp add: Reset_def New_def)
  have unread: "UnreadRune (Reset r x)
       = (Some (ErrorNew ''reader.Reader.UnreadRune: previous operation was not ReadRune''),
          Reset r x)"
    by (simp add: Reset_def UnreadRune_def readOp_defs)
  have first_read: "Read (Reset r x) p =
          (Return (min (length p) (len_S x), None),
           take (min (length p) (len_S x)) (bytes_of x) @ drop (min (length p) (len_S x)) p,
           \<lparr>r_s = x, r_off = of_nat (min (length p) (len_S x)),
            r_lastRead = (if 0 < min (length p) (len_S x) then opRead else opInvalid)\<rparr>)"
    if "fits_int x" "0 < len_S x"
    using Read_at_nat [OF that, of opInvalid p] by (simp add: fresh)
  have at_end: "Read \<lparr>r_s = x, r_off = of_nat (len_S x), r_lastRead = l\<rparr> p =
          (Return (0, Some EOF), p, \<lparr>r_s = x, r_off = of_nat (len_S x), r_lastRead = l\<rparr>)"
    if "fits_int x"
    using that by (simp add: Read_def fits_int_def sint_of_nat_exact)
  from fresh new unread first_read at_end Read_at_nat [of x k l p] show ?thesis
    by blast
qed

text \<open>
  The reset of the test suite: a reader that has just read the three-byte rune U+4E16 is
  reset to the bytes \<open>abc\<close>; it is then the fresh reader over them, and two reads into
  two-byte buffers return \<open>ab\<close> and then \<open>c\<close>.
\<close>

theorem Reset_fresh_witness:
  "Reset \<lparr>r_s = Data [0xE4, 0xB8, 0x96], r_off = 3, r_lastRead = opReadRune3\<rparr> (Data [0x61, 0x62, 0x63])
     = \<lparr>r_s = Data [0x61, 0x62, 0x63], r_off = 0, r_lastRead = opInvalid\<rparr>
   \<and> fst (UnreadRune \<lparr>r_s = Data [0x61, 0x62, 0x63], r_off = 0, r_lastRead = opInvalid\<rparr>) \<noteq> None
   \<and> Read \<lparr>r_s = Data [0x61, 0x62, 0x63], r_off = 0, r_lastRead = opInvalid\<rparr> [0, 0]
     = (Return (2, None), [0x61, 0x62],
        \<lparr>r_s = Data [0x61, 0x62, 0x63], r_off = 2, r_lastRead = opRead\<rparr>)
   \<and> Read \<lparr>r_s = Data [0x61, 0x62, 0x63], r_off = 2, r_lastRead = opRead\<rparr> [0, 0]
     = (Return (1, None), [0x63, 0],
        \<lparr>r_s = Data [0x61, 0x62, 0x63], r_off = 3, r_lastRead = opRead\<rparr>)"
  using Reset_fresh [of "\<lparr>r_s = Data [0xE4, 0xB8, 0x96], r_off = 3, r_lastRead = opReadRune3\<rparr>"
          "Data [0x61, 0x62, 0x63]" "[0, 0]" 2 opRead]
  by (simp add: Reset_def New_def Read_def UnreadRune_def fits_int_def len_S_def
                slice_from_def copy_def readOp_defs)

section \<open>The zero reader\<close>

text \<open>
  No method tells two readers with the same content apart: each returns the same on both
  and leaves them with the same content.
\<close>

lemma same_content_len: "same_content r1 r2 \<Longrightarrow> len_S (r_s r1) = len_S (r_s r2)"
  by (simp add: same_content_def len_S_def)

lemma same_content_Len: "same_content r1 r2 \<Longrightarrow> Len r1 = Len r2"
  by (simp add: Len_def same_content_len) (simp add: same_content_def)

lemma same_content_Size: "same_content r1 r2 \<Longrightarrow> Size r1 = Size r2"
  by (simp add: Size_def same_content_len)

lemma same_content_Read:
  assumes "same_content r1 r2"
  shows "fst (Read r1 p) = fst (Read r2 p) \<and> fst (snd (Read r1 p)) = fst (snd (Read r2 p))
     \<and> same_content (snd (snd (Read r1 p))) (snd (snd (Read r2 p)))"
  using assms same_content_len [OF assms]
  by (auto simp: Read_def Let_def same_content_def split: result.splits prod.splits)

lemma same_content_ReadAt:
  assumes "same_content r1 r2"
  shows "fst (ReadAt r1 p off) = fst (ReadAt r2 p off)
     \<and> fst (snd (ReadAt r1 p off)) = fst (snd (ReadAt r2 p off))
     \<and> same_content (snd (snd (ReadAt r1 p off))) (snd (snd (ReadAt r2 p off)))"
  using assms same_content_len [OF assms]
  by (auto simp: ReadAt_def Let_def same_content_def split: result.splits prod.splits)

lemma same_content_ReadByte:
  assumes "same_content r1 r2"
  shows "fst (ReadByte r1) = fst (ReadByte r2)
     \<and> same_content (snd (ReadByte r1)) (snd (ReadByte r2))"
  using assms same_content_len [OF assms]
  by (auto simp: ReadByte_def Let_def same_content_def split: result.splits)

lemma same_content_UnreadByte:
  assumes "same_content r1 r2"
  shows "fst (UnreadByte r1) = fst (UnreadByte r2)
     \<and> same_content (snd (UnreadByte r1)) (snd (UnreadByte r2))"
  using assms
  by (auto simp: UnreadByte_def same_content_def)

lemma same_content_ReadRune:
  assumes "same_content r1 r2"
  shows "fst (ReadRune r1) = fst (ReadRune r2)
     \<and> same_content (snd (ReadRune r1)) (snd (ReadRune r2))"
  using assms same_content_len [OF assms]
  by (auto simp: ReadRune_def Let_def same_content_def split: result.splits prod.splits)

lemma same_content_UnreadRune:
  assumes "same_content r1 r2"
  shows "fst (UnreadRune r1) = fst (UnreadRune r2)
     \<and> same_content (snd (UnreadRune r1)) (snd (UnreadRune r2))"
  using assms
  by (auto simp: UnreadRune_def same_content_def)

lemma same_content_Seek:
  assumes "same_content r1 r2"
  shows "fst (Seek r1 offset whence) = fst (Seek r2 offset whence)
     \<and> same_content (snd (Seek r1 offset whence)) (snd (Seek r2 offset whence))"
  using assms same_content_len [OF assms]
  by (auto simp: Seek_def Let_def same_content_def)

lemma same_content_WriteTo:
  assumes "same_content r1 r2"
  shows "fst (WriteTo r1 w ws) = fst (WriteTo r2 w ws)
     \<and> snd (snd (WriteTo r1 w ws)) = snd (snd (WriteTo r2 w ws))
     \<and> same_content (fst (snd (WriteTo r1 w ws))) (fst (snd (WriteTo r2 w ws)))"
  using assms same_content_len [OF assms]
  by (auto simp: WriteTo_def Let_def same_content_def split: result.splits prod.splits)

lemma same_content_do_call:
  assumes "same_content r1 r2"
  shows "fst (do_call r1 c) = fst (do_call r2 c)
     \<and> same_content (snd (do_call r1 c)) (snd (do_call r2 c))"
proof (cases c)
  case CallLen
  with assms show ?thesis by (simp add: same_content_Len)
next
  case CallSize
  with assms show ?thesis by (simp add: same_content_Size)
next
  case (CallRead p)
  with same_content_Read [OF assms, of p] show ?thesis
    by (simp add: split_beta)
next
  case (CallReadAt p off)
  with same_content_ReadAt [OF assms, of p off] show ?thesis
    by (simp add: split_beta)
next
  case CallReadByte
  with same_content_ReadByte [OF assms] show ?thesis
    by (simp add: split_beta)
next
  case CallUnreadByte
  with same_content_UnreadByte [OF assms] show ?thesis
    by (simp add: split_beta)
next
  case CallReadRune
  with same_content_ReadRune [OF assms] show ?thesis
    by (simp add: split_beta)
next
  case CallUnreadRune
  with same_content_UnreadRune [OF assms] show ?thesis
    by (simp add: split_beta)
next
  case (CallSeek offset whence)
  with same_content_Seek [OF assms, of offset whence] show ?thesis
    by (simp add: split_beta)
next
  case (CallWriteTo w ws)
  with same_content_WriteTo [OF assms, of w ws] show ?thesis
    by (simp add: split_beta)
next
  case (CallReset x)
  then show ?thesis by (simp add: Reset_def same_content_def)
qed

lemma same_content_do_calls:
  "same_content r1 r2 \<Longrightarrow>
   fst (do_calls r1 cs) = fst (do_calls r2 cs)
   \<and> same_content (snd (do_calls r1 cs)) (snd (do_calls r2 cs))"
proof (induction cs arbitrary: r1 r2)
  case Nil
  then show ?case by simp
next
  case (Cons c cs)
  from same_content_do_call [OF Cons.prems, of c]
  have out: "fst (do_call r1 c) = fst (do_call r2 c)"
    and next_same: "same_content (snd (do_call r1 c)) (snd (do_call r2 c))"
    by simp_all
  from Cons.IH [OF next_same] out show ?case
    by (simp add: split_beta)
qed

text \<open>
  Claim C9. The zero reader of a \<^verbatim>\<open>[]byte\<close> backing holds the nil slice and is not the
  same value as the reader made over an empty buffer, yet no sequence of calls tells them
  apart: whatever the calls (\<^verbatim>\<open>Len\<close>, \<^verbatim>\<open>Size\<close>, \<^verbatim>\<open>Read\<close>, \<^verbatim>\<open>ReadAt\<close>,
  \<^verbatim>\<open>ReadByte\<close>, \<^verbatim>\<open>UnreadByte\<close>, \<^verbatim>\<open>ReadRune\<close>, \<^verbatim>\<open>UnreadRune\<close>, \<^verbatim>\<open>Seek\<close>,
  \<^verbatim>\<open>WriteTo\<close>, also \<^verbatim>\<open>Reset\<close>) and their arguments, the outcomes from the two starting
  states are the same, call by call, and the two readers end with the same content. The
  zero reader of a \<^verbatim>\<open>string\<close> backing is the reader made over the empty string itself.
\<close>

theorem zero_Reader_as_empty:
  "zero_Reader \<noteq> New (Data [])
   \<and> fst (do_calls zero_Reader cs) = fst (do_calls (New (Data [])) cs)
   \<and> same_content (snd (do_calls zero_Reader cs)) (snd (do_calls (New (Data [])) cs))
   \<and> fst (do_call zero_Reader c) = fst (do_call (New (Data [])) c)
   \<and> \<lparr>r_s = Data [], r_off = 0, r_lastRead = 0\<rparr> = New (Data [])"
proof -
  have start: "same_content zero_Reader (New (Data []))"
    by (simp add: same_content_def zero_Reader_def New_def)
  have differ: "zero_Reader \<noteq> New (Data [])"
    by (simp add: zero_Reader_def New_def)
  from differ same_content_do_calls [OF start, of cs] same_content_do_call [OF start, of c]
  show ?thesis
    by (simp add: New_def)
qed

text \<open>
  The calls of the zero-value test, one after the other on the same reader, with a writer
  that takes everything: the outcomes from the zero reader, which are those from the
  reader over the empty buffer.
\<close>

theorem zero_Reader_as_empty_witness:
  "fst (do_calls zero_Reader
          [CallLen, CallRead [], CallReadAt [] 11, CallReadByte, CallReadRune, CallSize,
           CallUnreadByte, CallUnreadRune, CallWriteTo (\<lambda>ws bs. ((of_nat (length bs), None), ws)) (),
           CallSeek 11 SeekStart])
     = [GotLen 0, GotRead (Return (0, Some EOF)) [], GotReadAt (Return (0, Some EOF)) [],
        GotReadByte (Return (0, Some EOF)), GotReadRune (Return (0, 0, Some EOF)), GotSize 0,
        GotUnreadByte (Some (ErrorNew ''reader.Reader.UnreadByte: at beginning of slice or string'')),
        GotUnreadRune (Some (ErrorNew ''reader.Reader.UnreadRune: previous operation was not ReadRune'')),
        GotWriteTo (Return (0, None)) (), GotSeek (11, None)]
   \<and> fst (do_calls (New (Data []))
          [CallLen, CallRead [], CallReadAt [] 11, CallReadByte, CallReadRune, CallSize,
           CallUnreadByte, CallUnreadRune, CallWriteTo (\<lambda>ws bs. ((of_nat (length bs), None), ws)) (),
           CallSeek 11 SeekStart])
     = [GotLen 0, GotRead (Return (0, Some EOF)) [], GotReadAt (Return (0, Some EOF)) [],
        GotReadByte (Return (0, Some EOF)), GotReadRune (Return (0, 0, Some EOF)), GotSize 0,
        GotUnreadByte (Some (ErrorNew ''reader.Reader.UnreadByte: at beginning of slice or string'')),
        GotUnreadRune (Some (ErrorNew ''reader.Reader.UnreadRune: previous operation was not ReadRune'')),
        GotWriteTo (Return (0, None)) (), GotSeek (11, None)]"
proof -
  define cs :: "unit call list" where
    "cs = [CallLen, CallRead [], CallReadAt [] 11, CallReadByte, CallReadRune, CallSize,
           CallUnreadByte, CallUnreadRune, CallWriteTo (\<lambda>ws bs. ((of_nat (length bs), None), ws)) (),
           CallSeek 11 SeekStart]"
  have run: "fst (do_calls zero_Reader cs)
     = [GotLen 0, GotRead (Return (0, Some EOF)) [], GotReadAt (Return (0, Some EOF)) [],
        GotReadByte (Return (0, Some EOF)), GotReadRune (Return (0, 0, Some EOF)), GotSize 0,
        GotUnreadByte (Some (ErrorNew ''reader.Reader.UnreadByte: at beginning of slice or string'')),
        GotUnreadRune (Some (ErrorNew ''reader.Reader.UnreadRune: previous operation was not ReadRune'')),
        GotWriteTo (Return (0, None)) (), GotSeek (11, None)]"
    unfolding cs_def
    by (simp add: zero_Reader_def Len_def Size_def Read_def ReadAt_def ReadByte_def
                  ReadRune_def UnreadByte_def UnreadRune_def WriteTo_def Seek_def
                  SeekStart_def len_S_def readOp_defs)
  have same: "fst (do_calls zero_Reader cs) = fst (do_calls (New (Data [])) cs)"
    using zero_Reader_as_empty [of cs CallLen] by blast
  from run same show ?thesis
    unfolding cs_def [symmetric] by simp
qed

section \<open>The position is never negative\<close>

text \<open>
  Each method keeps \<open>position_ok\<close> over a backing value that Go can hold; \<^verbatim>\<open>WriteTo\<close>
  does when the count it returns, which is the count its writer reported, is not negative.
\<close>

lemma not_rune_op [simp]: "\<not> is_rune_op opInvalid" "\<not> is_rune_op opRead"
  by (simp_all add: is_rune_op_def readOp_defs)

lemma rune_op_width:
  "is_rune_op l \<Longrightarrow> sint (scast l :: int64) = sint l \<and> 1 \<le> sint l \<and> sint l \<le> 4"
  by (auto simp: is_rune_op_def readOp_defs)

lemma rune_op_of_width:
  "w \<in> {1, 2, 3, 4} \<Longrightarrow> sint (of_nat w :: readOp) = int w"
  by auto

lemma position_ok_Read:
  assumes "fits_int (r_s r)" and "position_ok r"
  shows "position_ok (snd (snd (Read r p))) \<and> r_s (snd (snd (Read r p))) = r_s r"
proof (cases "int (len_S (r_s r)) \<le> sint (r_off r)")
  case True
  with assms show ?thesis by (simp add: Read_def)
next
  case False
  define n where "n = min (length p) (len_S (r_s r) - nat (sint (r_off r)))"
  from assms(2) have nonneg: "0 \<le> sint (r_off r)"
    by (simp add: position_ok_def)
  from False nonneg have "sint (r_off r) + int n \<le> int (len_S (r_s r))"
    by (simp add: n_def)
  with nonneg assms(1) have adv: "sint (r_off r + of_nat n) = sint (r_off r) + int n"
    by (intro sint_advance [where L = "len_S (r_s r)"]) (simp_all add: fits_int_def)
  from False nonneg have "snd (snd (Read r p)) =
      (if 0 < n then r\<lparr>r_lastRead := opRead, r_off := r_off r + of_nat n\<rparr>
       else r\<lparr>r_lastRead := opInvalid, r_off := r_off r + of_nat n\<rparr>)"
    by (simp add: Read_def slice_from_def copy_def len_S_def Let_def n_def)
  with adv nonneg show ?thesis
    by (simp add: position_ok_def)
qed

lemma position_ok_ReadAt:
  "position_ok r \<Longrightarrow>
   position_ok (snd (snd (ReadAt r p off))) \<and> r_s (snd (snd (ReadAt r p off))) = r_s r"
  by (simp add: ReadAt_reader)

lemma position_ok_ReadByte:
  assumes "fits_int (r_s r)" and "position_ok r"
  shows "position_ok (snd (ReadByte r)) \<and> r_s (snd (ReadByte r)) = r_s r"
proof (cases "int (len_S (r_s r)) \<le> sint (r_off r)")
  case True
  with assms show ?thesis by (simp add: ReadByte_def position_ok_def)
next
  case False
  from assms(2) have nonneg: "0 \<le> sint (r_off r)"
    by (simp add: position_ok_def)
  with False assms(1) have "sint (r_off r + of_nat 1) = sint (r_off r) + int 1"
    by (intro sint_advance [where L = "len_S (r_s r)"]) (simp_all add: fits_int_def)
  with False nonneg show ?thesis
    by (simp add: ReadByte_def index_at_def len_S_def position_ok_def)
qed

lemma position_ok_UnreadByte:
  assumes "position_ok r"
  shows "position_ok (snd (UnreadByte r)) \<and> r_s (snd (UnreadByte r)) = r_s r"
proof (cases "sint (r_off r) \<le> 0")
  case True
  with assms show ?thesis by (simp add: UnreadByte_def)
next
  case False
  have "sint (r_off r) < 2 ^ 63"
    using sint_lt [of "r_off r"] by simp
  with False have "sint (r_off r - 1) = sint (r_off r) - 1"
    using sint_sub_exact [of "r_off r" 1] by simp
  with False show ?thesis
    by (simp add: UnreadByte_def position_ok_def)
qed

lemma position_ok_ReadRune:
  assumes "fits_int (r_s r)" and "position_ok r"
  shows "position_ok (snd (ReadRune r)) \<and> r_s (snd (ReadRune r)) = r_s r"
proof (cases "int (len_S (r_s r)) \<le> sint (r_off r)")
  case True
  with assms show ?thesis by (simp add: ReadRune_def position_ok_def)
next
  case False
  from assms(2) have nonneg: "0 \<le> sint (r_off r)"
    by (simp add: position_ok_def)
  from False nonneg
  have idx: "index_at (bytes_of (r_s r)) (r_off r)
      = Return (bytes_of (r_s r) ! nat (sint (r_off r)))"
    and sl: "slice_from (bytes_of (r_s r)) (r_off r)
      = Return (drop (nat (sint (r_off r))) (bytes_of (r_s r)))"
    by (simp_all add: index_at_def slice_from_def len_S_def)
  define rest where "rest = drop (nat (sint (r_off r))) (bytes_of (r_s r))"
  define w where
    "w = (if bytes_of (r_s r) ! nat (sint (r_off r)) < RuneSelf then 1 else snd (DecodeRune rest))"
  from False nonneg have rest: "rest \<noteq> []" "int (length rest) = int (len_S (r_s r)) - sint (r_off r)"
    by (auto simp: rest_def len_S_def)
  from rest(1) have w: "w \<in> {1, 2, 3, 4}" "w \<le> length rest"
    using DecodeRune_width [of rest] by (auto simp: w_def Suc_le_eq)
  from idx sl False
  have state: "snd (ReadRune r) = r\<lparr>r_off := r_off r + of_nat w, r_lastRead := of_nat w\<rparr>"
    by (simp add: ReadRune_def w_def rest_def split_beta readOp_defs)
  from w(2) rest(2) have "sint (r_off r) + int w \<le> int (len_S (r_s r))"
    by linarith
  with nonneg assms(1) have adv: "sint (r_off r + of_nat w) = sint (r_off r) + int w"
    by (intro sint_advance [where L = "len_S (r_s r)"]) (simp_all add: fits_int_def)
  from w(1) have "sint (of_nat w :: readOp) = int w"
    by (rule rune_op_of_width)
  with adv nonneg show ?thesis
    by (simp add: state position_ok_def)
qed

lemma UnreadRune_is_rune_op:
  "UnreadRune r =
     (if is_rune_op (r_lastRead r)
      then (None, r\<lparr>r_off := r_off r - scast (r_lastRead r), r_lastRead := opInvalid\<rparr>)
      else (Some (ErrorNew ''reader.Reader.UnreadRune: previous operation was not ReadRune''), r))"
  by (simp add: UnreadRune_def is_rune_op_def)

lemma position_ok_UnreadRune:
  assumes "position_ok r"
  shows "position_ok (snd (UnreadRune r)) \<and> r_s (snd (UnreadRune r)) = r_s r"
proof (cases "is_rune_op (r_lastRead r)")
  case False
  with assms show ?thesis by (simp add: UnreadRune_is_rune_op)
next
  case True
  from rune_op_width [OF True]
  have cast: "sint (scast (r_lastRead r) :: int64) = sint (r_lastRead r)"
    and width: "1 \<le> sint (r_lastRead r)" "sint (r_lastRead r) \<le> 4"
    by simp_all
  from assms True have room: "sint (r_lastRead r) \<le> sint (r_off r)"
    by (simp add: position_ok_def)
  have "sint (r_off r) < 2 ^ 63"
    using sint_lt [of "r_off r"] by simp
  with room width have "sint (r_off r - scast (r_lastRead r)) = sint (r_off r) - sint (r_lastRead r)"
    using sint_sub_exact [of "r_off r" "scast (r_lastRead r)"] by (simp add: cast)
  with room True show ?thesis
    by (simp add: UnreadRune_is_rune_op position_ok_def)
qed

lemma position_ok_Seek:
  assumes "position_ok r"
  shows "position_ok (snd (Seek r offset whence)) \<and> r_s (snd (Seek r offset whence)) = r_s r"
  using assms
  by (simp add: Seek_def Let_def position_ok_def)

lemma position_ok_WriteTo:
  assumes "fits_int (r_s r)" and "position_ok r"
    and "\<forall>m err. fst (WriteTo r w ws) = Return (m, err) \<longrightarrow> 0 \<le> sint m"
  shows "position_ok (fst (snd (WriteTo r w ws))) \<and> r_s (fst (snd (WriteTo r w ws))) = r_s r"
proof (cases "int (len_S (r_s r)) \<le> sint (r_off r)")
  case True
  with assms(2) show ?thesis by (simp add: WriteTo_at_end position_ok_def)
next
  case False
  from assms(2) have nonneg: "0 \<le> sint (r_off r)"
    by (simp add: position_ok_def)
  obtain m err ws' where
    call: "w ws (drop (nat (sint (r_off r))) (bytes_of (r_s r))) = ((m, err), ws')"
    by (metis surj_pair)
  from False nonneg
  have offered: "int (length (drop (nat (sint (r_off r))) (bytes_of (r_s r))))
      = int (len_S (r_s r)) - sint (r_off r)"
    by (auto simp: len_S_def)
  show ?thesis
  proof (cases "int (len_S (r_s r)) - sint (r_off r) < sint m")
    case True
    with False nonneg call offered show ?thesis
      using WriteTo_offered [of r w ws m err ws'] by (simp add: position_ok_def)
  next
    case fewer: False
    with False nonneg call offered
    have eq: "WriteTo r w ws =
        (Return (m, if sint m < int (len_S (r_s r)) - sint (r_off r) \<and> err = None
                    then Some ErrShortWrite else err),
         r\<lparr>r_lastRead := opInvalid, r_off := r_off r + m\<rparr>, ws')"
      using WriteTo_offered [of r w ws m err ws'] by simp
    with assms(3) have "0 \<le> sint m"
      by simp
    moreover from assms(1) nonneg fewer have "sint (r_off r + m) = sint (r_off r) + sint m"
      by (intro WriteTo_advance) simp_all
    ultimately show ?thesis
      using nonneg by (simp add: eq position_ok_def)
  qed
qed

lemma position_ok_do_call:
  assumes "fits_int (r_s r)" and "position_ok r"
    and "call_fits c" and "count_nonneg (fst (do_call r c))"
  shows "fits_int (r_s (snd (do_call r c))) \<and> position_ok (snd (do_call r c))"
proof (cases c)
  case CallLen
  with assms show ?thesis by simp
next
  case CallSize
  with assms show ?thesis by simp
next
  case (CallRead p)
  with position_ok_Read [OF assms(1,2), of p] assms(1) show ?thesis
    by (simp add: split_beta)
next
  case (CallReadAt p off)
  with position_ok_ReadAt [OF assms(2), of p off] assms(1) show ?thesis
    by (simp add: split_beta)
next
  case CallReadByte
  with position_ok_ReadByte [OF assms(1,2)] assms(1) show ?thesis
    by (simp add: split_beta)
next
  case CallUnreadByte
  with position_ok_UnreadByte [OF assms(2)] assms(1) show ?thesis
    by (simp add: split_beta)
next
  case CallReadRune
  with position_ok_ReadRune [OF assms(1,2)] assms(1) show ?thesis
    by (simp add: split_beta)
next
  case CallUnreadRune
  with position_ok_UnreadRune [OF assms(2)] assms(1) show ?thesis
    by (simp add: split_beta)
next
  case (CallSeek offset whence)
  with position_ok_Seek [OF assms(2), of offset whence] assms(1) show ?thesis
    by (simp add: split_beta)
next
  case (CallWriteTo w ws)
  with assms(4)
  have counts: "\<forall>m err. fst (WriteTo r w ws) = Return (m, err) \<longrightarrow> 0 \<le> sint m"
    by (auto simp: split_beta)
  from position_ok_WriteTo [OF assms(1,2) counts] CallWriteTo assms(1) show ?thesis
    by (simp add: split_beta)
next
  case (CallReset x)
  with assms(3) show ?thesis
    by (simp add: Reset_def position_ok_def is_rune_op_def readOp_defs)
qed

lemma position_ok_do_calls:
  "fits_int (r_s r) \<Longrightarrow> position_ok r \<Longrightarrow> list_all call_fits cs \<Longrightarrow>
   list_all count_nonneg (fst (do_calls r cs)) \<Longrightarrow>
   fits_int (r_s (snd (do_calls r cs))) \<and> position_ok (snd (do_calls r cs))"
proof (induction cs arbitrary: r)
  case Nil
  then show ?case by simp
next
  case (Cons c cs)
  from Cons.prems(3) have fits: "call_fits c" "list_all call_fits cs"
    by simp_all
  from Cons.prems(4) have counts: "count_nonneg (fst (do_call r c))"
    "list_all count_nonneg (fst (do_calls (snd (do_call r c)) cs))"
    by (simp_all add: split_beta)
  from position_ok_do_call [OF Cons.prems(1,2) fits(1) counts(1)]
  have step: "fits_int (r_s (snd (do_call r c)))" "position_ok (snd (do_call r c))"
    by simp_all
  from Cons.IH [OF step fits(2) counts(2)] show ?case
    by (simp add: split_beta)
qed

lemma do_calls_take:
  "fst (do_calls r (take k cs)) = take k (fst (do_calls r cs))"
proof (induction cs arbitrary: r k)
  case Nil
  then show ?case by simp
next
  case (Cons c cs)
  then show ?case
    by (cases k) (simp_all add: split_beta)
qed

lemma list_all_take: "list_all P xs \<Longrightarrow> list_all P (take k xs)"
  by (auto simp: list_all_iff dest: in_set_takeD)

text \<open>
  The width half of the invariant needs nothing from the writers: every method keeps
  \<open>width_ok\<close> over a backing value that Go can hold, from any position.
\<close>

lemma position_ok_width_ok: "position_ok r \<Longrightarrow> width_ok r"
  by (simp add: position_ok_def width_ok_def)

lemma width_ok_Read:
  assumes "width_ok r"
  shows "width_ok (snd (snd (Read r p))) \<and> r_s (snd (snd (Read r p))) = r_s r"
  using assms
  by (auto simp: Read_def Let_def width_ok_def split: result.splits prod.splits)

lemma width_ok_ReadByte:
  "width_ok (snd (ReadByte r)) \<and> r_s (snd (ReadByte r)) = r_s r"
  by (auto simp: ReadByte_def Let_def width_ok_def split: result.splits)

lemma width_ok_UnreadByte:
  assumes "width_ok r"
  shows "width_ok (snd (UnreadByte r)) \<and> r_s (snd (UnreadByte r)) = r_s r"
  using assms
  by (auto simp: UnreadByte_def width_ok_def)

lemma ReadRune_advance:
  assumes "fits_int (r_s r)" and "0 \<le> sint (r_off r)"
    and "sint (r_off r) < int (len_S (r_s r))"
  shows "\<exists>w. w \<in> {1, 2, 3, 4}
     \<and> snd (ReadRune r) = r\<lparr>r_off := r_off r + of_nat w, r_lastRead := of_nat w\<rparr>
     \<and> sint (r_off r + of_nat w) = sint (r_off r) + int w
     \<and> sint (of_nat w :: readOp) = int w"
proof -
  from assms(2,3)
  have idx: "index_at (bytes_of (r_s r)) (r_off r)
      = Return (bytes_of (r_s r) ! nat (sint (r_off r)))"
    and sl: "slice_from (bytes_of (r_s r)) (r_off r)
      = Return (drop (nat (sint (r_off r))) (bytes_of (r_s r)))"
    by (simp_all add: index_at_def slice_from_def len_S_def)
  define rest where "rest = drop (nat (sint (r_off r))) (bytes_of (r_s r))"
  define w where
    "w = (if bytes_of (r_s r) ! nat (sint (r_off r)) < RuneSelf then 1 else snd (DecodeRune rest))"
  from assms(2,3) have rest: "rest \<noteq> []" "int (length rest) = int (len_S (r_s r)) - sint (r_off r)"
    by (auto simp: rest_def len_S_def)
  from rest(1) have w: "w \<in> {1, 2, 3, 4}" "w \<le> length rest"
    using DecodeRune_width [of rest] by (auto simp: w_def Suc_le_eq)
  from idx sl assms(3)
  have state: "snd (ReadRune r) = r\<lparr>r_off := r_off r + of_nat w, r_lastRead := of_nat w\<rparr>"
    by (simp add: ReadRune_def w_def rest_def split_beta readOp_defs)
  from w(2) rest(2) have "sint (r_off r) + int w \<le> int (len_S (r_s r))"
    by linarith
  with assms(1,2) have adv: "sint (r_off r + of_nat w) = sint (r_off r) + int w"
    by (intro sint_advance [where L = "len_S (r_s r)"]) (simp_all add: fits_int_def)
  from w(1) have "sint (of_nat w :: readOp) = int w"
    by (rule rune_op_of_width)
  with w(1) state adv show ?thesis
    by blast
qed

lemma width_ok_ReadRune:
  assumes "fits_int (r_s r)" and "width_ok r"
  shows "width_ok (snd (ReadRune r)) \<and> r_s (snd (ReadRune r)) = r_s r"
proof -
  consider (past) "int (len_S (r_s r)) \<le> sint (r_off r)"
    | (before) "sint (r_off r) < 0" "sint (r_off r) < int (len_S (r_s r))"
    | (inside) "0 \<le> sint (r_off r)" "sint (r_off r) < int (len_S (r_s r))"
    by linarith
  then show ?thesis
  proof cases
    case past
    then show ?thesis by (simp add: ReadRune_def width_ok_def)
  next
    case before
    with assms(2) show ?thesis by (simp add: ReadRune_def index_at_def)
  next
    case inside
    from ReadRune_advance [OF assms(1) inside] obtain w where
      "snd (ReadRune r) = r\<lparr>r_off := r_off r + of_nat w, r_lastRead := of_nat w\<rparr>"
      "sint (r_off r + of_nat w) = sint (r_off r) + int w"
      "sint (of_nat w :: readOp) = int w"
      by blast
    with inside(1) show ?thesis
      by (simp add: width_ok_def)
  qed
qed

lemma width_ok_UnreadRune:
  assumes "width_ok r"
  shows "width_ok (snd (UnreadRune r)) \<and> r_s (snd (UnreadRune r)) = r_s r"
  using assms
  by (simp add: UnreadRune_is_rune_op width_ok_def)

lemma width_ok_Seek:
  "width_ok (snd (Seek r offset whence)) \<and> r_s (snd (Seek r offset whence)) = r_s r"
  by (simp add: Seek_def Let_def width_ok_def)

lemma width_ok_WriteTo:
  "width_ok (fst (snd (WriteTo r w ws))) \<and> r_s (fst (snd (WriteTo r w ws))) = r_s r"
  by (auto simp: WriteTo_def Let_def width_ok_def split: result.splits prod.splits)

lemma width_ok_do_call:
  assumes "fits_int (r_s r)" and "width_ok r" and "call_fits c"
  shows "fits_int (r_s (snd (do_call r c))) \<and> width_ok (snd (do_call r c))"
proof (cases c)
  case CallLen
  with assms show ?thesis by simp
next
  case CallSize
  with assms show ?thesis by simp
next
  case (CallRead p)
  with width_ok_Read [OF assms(2), of p] assms(1) show ?thesis
    by (simp add: split_beta)
next
  case (CallReadAt p off)
  with assms(1,2) show ?thesis
    by (simp add: split_beta ReadAt_reader)
next
  case CallReadByte
  with width_ok_ReadByte [of r] assms(1) show ?thesis
    by (simp add: split_beta)
next
  case CallUnreadByte
  with width_ok_UnreadByte [OF assms(2)] assms(1) show ?thesis
    by (simp add: split_beta)
next
  case CallReadRune
  with width_ok_ReadRune [OF assms(1,2)] assms(1) show ?thesis
    by (simp add: split_beta)
next
  case CallUnreadRune
  with width_ok_UnreadRune [OF assms(2)] assms(1) show ?thesis
    by (simp add: split_beta)
next
  case (CallSeek offset whence)
  with width_ok_Seek [of r offset whence] assms(1) show ?thesis
    by (simp add: split_beta)
next
  case (CallWriteTo w ws)
  with width_ok_WriteTo [of r w ws] assms(1) show ?thesis
    by (simp add: split_beta)
next
  case (CallReset x)
  with assms(3) show ?thesis
    by (simp add: Reset_def width_ok_def is_rune_op_def readOp_defs)
qed

lemma width_ok_do_calls:
  "fits_int (r_s r) \<Longrightarrow> width_ok r \<Longrightarrow> list_all call_fits cs \<Longrightarrow>
   fits_int (r_s (snd (do_calls r cs))) \<and> width_ok (snd (do_calls r cs))"
proof (induction cs arbitrary: r)
  case Nil
  then show ?case by simp
next
  case (Cons c cs)
  from Cons.prems(3) have fits: "call_fits c" "list_all call_fits cs"
    by simp_all
  from width_ok_do_call [OF Cons.prems(1,2) fits(1)]
  have step: "fits_int (r_s (snd (do_call r c)))" "width_ok (snd (do_call r c))"
    by simp_all
  from Cons.IH [OF step fits(2)] show ?case
    by (simp add: split_beta)
qed

text \<open>
  A successful unread never leaves a negative position, at a reader that keeps
  \<open>width_ok\<close> for \<^verbatim>\<open>UnreadRune\<close> and at any reader for \<^verbatim>\<open>UnreadByte\<close>.
\<close>

lemma UnreadRune_success:
  assumes "width_ok r" and "fst (UnreadRune r) = None"
  shows "is_rune_op (r_lastRead r)
     \<and> sint (r_off (snd (UnreadRune r))) = sint (r_off r) - sint (r_lastRead r)
     \<and> 0 \<le> sint (r_off (snd (UnreadRune r)))"
proof -
  from assms(2) have op: "is_rune_op (r_lastRead r)"
    by (simp add: UnreadRune_is_rune_op split: if_splits)
  from rune_op_width [OF op]
  have cast: "sint (scast (r_lastRead r) :: int64) = sint (r_lastRead r)"
    and width: "1 \<le> sint (r_lastRead r)" "sint (r_lastRead r) \<le> 4"
    by simp_all
  from assms(1) op have room: "sint (r_lastRead r) \<le> sint (r_off r)"
    by (simp add: width_ok_def)
  have "sint (r_off r) < 2 ^ 63"
    using sint_lt [of "r_off r"] by simp
  with room width have "sint (r_off r - scast (r_lastRead r)) = sint (r_off r) - sint (r_lastRead r)"
    using sint_sub_exact [of "r_off r" "scast (r_lastRead r)"] by (simp add: cast)
  with room op show ?thesis
    by (simp add: UnreadRune_is_rune_op)
qed

lemma UnreadByte_success:
  assumes "fst (UnreadByte r) = None"
  shows "sint (r_off (snd (UnreadByte r))) = sint (r_off r) - 1
     \<and> 0 \<le> sint (r_off (snd (UnreadByte r)))"
proof -
  from assms have pos: "0 < sint (r_off r)"
    by (simp add: UnreadByte_def split: if_splits)
  have "sint (r_off r) < 2 ^ 63"
    using sint_lt [of "r_off r"] by simp
  with pos have "sint (r_off r - 1) = sint (r_off r) - 1"
    using sint_sub_exact [of "r_off r" 1] by simp
  with pos show ?thesis
    by (simp add: UnreadByte_def)
qed

text \<open>
  Claim C10, as amended. \<^verbatim>\<open>WriteTo\<close> adds the count its writer reports to the position
  and refuses only a count above the number of bytes offered, so a writer that reports a
  negative count moves the position below 0. That is the only way: start from a reader made
  by \<^verbatim>\<open>New\<close>, the zero reader or a reader just reset, over a backing value that Go can
  hold, and make any sequence of calls in which every \<^verbatim>\<open>Reset\<close> is given such a value.
  After any number \<open>k\<close> of these calls among which no \<^verbatim>\<open>WriteTo\<close> has returned a
  negative count, the position is not negative, and it is not negative after an
  \<^verbatim>\<open>UnreadRune\<close> or an \<^verbatim>\<open>UnreadByte\<close> made at that point. The rest of the claim holds
  after any number of calls, whatever the writers reported: whenever \<open>lastRead\<close> records a
  rune, its width is at least 1 and the position is at least the width; an \<^verbatim>\<open>UnreadRune\<close>
  that succeeds takes exactly that width off and leaves a position that is not negative; an
  \<^verbatim>\<open>UnreadByte\<close> that succeeds takes exactly 1 off and leaves a position that is not
  negative.
\<close>

theorem position_never_negative:
  assumes "r0 = New x \<or> r0 = zero_Reader \<or> r0 = Reset r x"
    and "fits_int x"
    and "list_all call_fits cs"
  shows
    "(list_all count_nonneg (fst (do_calls r0 (take k cs))) \<longrightarrow>
        0 \<le> sint (r_off (snd (do_calls r0 (take k cs))))
      \<and> 0 \<le> sint (r_off (snd (UnreadRune (snd (do_calls r0 (take k cs))))))
      \<and> 0 \<le> sint (r_off (snd (UnreadByte (snd (do_calls r0 (take k cs)))))))
     \<and> (is_rune_op (r_lastRead (snd (do_calls r0 (take k cs)))) \<longrightarrow>
          1 \<le> sint (r_lastRead (snd (do_calls r0 (take k cs))))
        \<and> sint (r_lastRead (snd (do_calls r0 (take k cs))))
            \<le> sint (r_off (snd (do_calls r0 (take k cs)))))
     \<and> (fst (UnreadRune (snd (do_calls r0 (take k cs)))) = None \<longrightarrow>
          is_rune_op (r_lastRead (snd (do_calls r0 (take k cs))))
        \<and> sint (r_off (snd (UnreadRune (snd (do_calls r0 (take k cs))))))
            = sint (r_off (snd (do_calls r0 (take k cs))))
              - sint (r_lastRead (snd (do_calls r0 (take k cs))))
        \<and> 0 \<le> sint (r_off (snd (UnreadRune (snd (do_calls r0 (take k cs)))))))
     \<and> (fst (UnreadByte (snd (do_calls r0 (take k cs)))) = None \<longrightarrow>
          sint (r_off (snd (UnreadByte (snd (do_calls r0 (take k cs))))))
            = sint (r_off (snd (do_calls r0 (take k cs)))) - 1
        \<and> 0 \<le> sint (r_off (snd (UnreadByte (snd (do_calls r0 (take k cs)))))))"
proof -
  define rk where "rk = snd (do_calls r0 (take k cs))"
  from assms(1,2) have start: "fits_int (r_s r0)" "position_ok r0"
    by (auto simp: New_def zero_Reader_def Reset_def fits_int_def len_S_def position_ok_def
                   is_rune_op_def readOp_defs)
  from assms(3) have fits: "list_all call_fits (take k cs)"
    by (rule list_all_take)
  have guarded: "0 \<le> sint (r_off rk) \<and> 0 \<le> sint (r_off (snd (UnreadRune rk)))
      \<and> 0 \<le> sint (r_off (snd (UnreadByte rk)))"
    if counts: "list_all count_nonneg (fst (do_calls r0 (take k cs)))"
  proof -
    from position_ok_do_calls [OF start fits counts] have ok: "position_ok rk"
      by (simp add: rk_def)
    from position_ok_UnreadRune [OF ok] position_ok_UnreadByte [OF ok] ok show ?thesis
      by (simp add: position_ok_def)
  qed
  from width_ok_do_calls [OF start(1) position_ok_width_ok [OF start(2)] fits]
  have width: "width_ok rk"
    by (simp add: rk_def)
  have rune: "1 \<le> sint (r_lastRead rk) \<and> sint (r_lastRead rk) \<le> sint (r_off rk)"
    if "is_rune_op (r_lastRead rk)"
    using that width rune_op_width [OF that] by (simp add: width_ok_def)
  note unread_rune = UnreadRune_success [OF width]
  note unread_byte = UnreadByte_success [of rk]
  from guarded rune unread_rune unread_byte show ?thesis
    unfolding rk_def by blast
qed

text \<open>
  Two runs. Over the bytes of \<open>a\<close> and U+4E16 no writer reports a negative count: two
  runes are read and the second is unread, two bytes are unread of which the second is
  refused at position 0, a seek to before the start is refused, a writer takes one byte, and
  the reader is reset and a byte is read; after the first two calls the position is 4 with
  a rune of width 3 recorded. Over the bytes \<open>ab\<close> a writer reports \<open>-1\<close>, a seek goes
  to position 1 and a rune is read; the position is then 2 with a rune of width 1
  recorded, and the \<^verbatim>\<open>UnreadRune\<close> that follows succeeds and leaves position 1.
\<close>

theorem position_never_negative_witness:
  "snd (do_calls (New (Data [0x61, 0xE4, 0xB8, 0x96]))
          (take 2 [CallReadRune, CallReadRune, CallUnreadRune, CallUnreadByte, CallUnreadByte,
           CallSeek (- 5) SeekCurrent, CallWriteTo (\<lambda>ws bs. ((1, None), ws)) (),
           CallReset (Data [0x62]), CallReadByte]))
     = \<lparr>r_s = Data [0x61, 0xE4, 0xB8, 0x96], r_off = 4, r_lastRead = opReadRune3\<rparr>
   \<and> 0 \<le> sint (r_off (snd (do_calls (New (Data [0x61, 0xE4, 0xB8, 0x96]))
          (take 2 [CallReadRune, CallReadRune, CallUnreadRune, CallUnreadByte, CallUnreadByte,
           CallSeek (- 5) SeekCurrent, CallWriteTo (\<lambda>ws bs. ((1, None), ws)) (),
           CallReset (Data [0x62]), CallReadByte]))))
   \<and> is_rune_op opReadRune3
   \<and> sint opReadRune3 \<le> sint (4 :: int64)
   \<and> snd (do_calls (New (Data [0x61, 0x62]))
          (take 3 [CallWriteTo (\<lambda>ws bs. ((- 1, None), ws)) (), CallSeek 1 SeekStart,
                   CallReadRune]))
     = \<lparr>r_s = Data [0x61, 0x62], r_off = 2, r_lastRead = opReadRune1\<rparr>
   \<and> fst (UnreadRune \<lparr>r_s = Data [0x61, 0x62], r_off = 2, r_lastRead = opReadRune1\<rparr>) = None
   \<and> 0 \<le> sint (r_off (snd (UnreadRune (snd (do_calls (New (Data [0x61, 0x62]))
          (take 3 [CallWriteTo (\<lambda>ws bs. ((- 1, None), ws)) (), CallSeek 1 SeekStart,
                   CallReadRune]))))))"
proof -
  define cs1 :: "unit call list" where
    "cs1 = [CallReadRune, CallReadRune, CallUnreadRune, CallUnreadByte, CallUnreadByte,
           CallSeek (- 5) SeekCurrent, CallWriteTo (\<lambda>ws bs. ((1, None), ws)) (),
           CallReset (Data [0x62]), CallReadByte]"
  define cs2 :: "unit call list" where
    "cs2 = [CallWriteTo (\<lambda>ws bs. ((- 1, None), ws)) (), CallSeek 1 SeekStart, CallReadRune]"
  have run1: "do_calls (New (Data [0x61, 0xE4, 0xB8, 0x96])) (take 2 cs1)
     = ([GotReadRune (Return (0x61, 1, None)), GotReadRune (Return (0x4E16, 3, None))],
        \<lparr>r_s = Data [0x61, 0xE4, 0xB8, 0x96], r_off = 4, r_lastRead = opReadRune3\<rparr>)"
    unfolding cs1_def
    by (simp add: New_def ReadRune_def len_S_def index_at_def slice_from_def RuneSelf_def
                  DecodeRune_def first_def acceptRanges_def readOp_defs)
  have run2: "do_calls (New (Data [0x61, 0x62])) (take 3 cs2)
     = ([GotWriteTo (Return (- 1, Some ErrShortWrite)) (), GotSeek (1, None),
         GotReadRune (Return (0x62, 1, None))],
        \<lparr>r_s = Data [0x61, 0x62], r_off = 2, r_lastRead = opReadRune1\<rparr>)"
    unfolding cs2_def
    by (simp add: New_def ReadRune_def WriteTo_def Seek_def SeekStart_def len_S_def
                  index_at_def slice_from_def RuneSelf_def readOp_defs)
  have start1: "New (Data [0x61, 0xE4, 0xB8, 0x96]) = New (Data [0x61, 0xE4, 0xB8, 0x96])
      \<or> New (Data [0x61, 0xE4, 0xB8, 0x96]) = zero_Reader
      \<or> New (Data [0x61, 0xE4, 0xB8, 0x96]) = Reset zero_Reader (Data [0x61, 0xE4, 0xB8, 0x96])"
    by simp
  have start2: "New (Data [0x61, 0x62]) = New (Data [0x61, 0x62])
      \<or> New (Data [0x61, 0x62]) = zero_Reader
      \<or> New (Data [0x61, 0x62]) = Reset zero_Reader (Data [0x61, 0x62])"
    by simp
  have fits1: "fits_int (Data [0x61, 0xE4, 0xB8, 0x96])"
    and fits2: "fits_int (Data [0x61, 0x62])"
    by (simp_all add: fits_int_def len_S_def)
  have calls1: "list_all call_fits cs1" and calls2: "list_all call_fits cs2"
    by (simp_all add: cs1_def cs2_def fits_int_def len_S_def)
  have counts1: "list_all count_nonneg
      (fst (do_calls (New (Data [0x61, 0xE4, 0xB8, 0x96])) (take 2 cs1)))"
    unfolding run1 by simp
  have op1: "is_rune_op opReadRune3" and w1: "sint opReadRune3 \<le> sint (4 :: int64)"
    by (simp_all add: is_rune_op_def readOp_defs)
  have unread2: "fst (UnreadRune \<lparr>r_s = Data [0x61, 0x62], r_off = 2, r_lastRead = opReadRune1\<rparr>)
      = None"
    by (simp add: UnreadRune_def readOp_defs)
  from position_never_negative [OF start1 fits1 calls1, of 2] counts1
  have pos1: "0 \<le> sint (r_off (snd (do_calls (New (Data [0x61, 0xE4, 0xB8, 0x96])) (take 2 cs1))))"
    by blast
  from position_never_negative [OF start2 fits2 calls2, of 3] unread2
  have pos2: "0 \<le> sint (r_off (snd (UnreadRune (snd (do_calls (New (Data [0x61, 0x62]))
      (take 3 cs2))))))"
    unfolding run2 by simp
  from run1 run2 op1 w1 unread2 pos1 pos2 show ?thesis
    unfolding cs1_def [symmetric] cs2_def [symmetric]
    by (simp only: snd_conv simp_thms)
qed

text \<open>
  Claim C10 as stated fails on a fresh one-byte reader with a writer that reports the
  count \<open>-1\<close>: \<^verbatim>\<open>WriteTo\<close> returns that count and leaves the position at \<open>-1\<close>.
\<close>

theorem negative_count_counterexample:
  "do_calls (New (Data [0x61])) [CallWriteTo (\<lambda>ws bs. ((- 1, None), ws)) ()]
     = ([GotWriteTo (Return (- 1, Some ErrShortWrite)) ()],
        \<lparr>r_s = Data [0x61], r_off = - 1, r_lastRead = opInvalid\<rparr>)
   \<and> sint (r_off \<lparr>r_s = Data [0x61], r_off = - 1, r_lastRead = opInvalid\<rparr>) < 0"
  by (simp add: New_def WriteTo_def len_S_def slice_from_def readOp_defs)

end
